theory Spec2Isabelle
  imports Complex_Main
begin

unbundle bit_operations_syntax

text \<open>
  The articulation remote for Logic Pro: the parser of articulation sets and the
  auto-assignment of remote triggers (\<open>logicArticulationParser.ts\<close>), the choice of a set
  for a track name (\<open>page.tsx\<close> and the route of the articulations API), the MIDI handler
  of the display client (\<open>midiHandler.ts\<close>) and the message handling of the bridge server
  (\<open>midi-server.js\<close>). Each function is written down from its source, with the values
  JavaScript computes at run time; the XML parser, the built-in number conversions, the
  clock and the random generator are inputs.
\<close>

section \<open>Strings\<close>

text \<open>
  A JavaScript string is modelled as an Isabelle \<open>string\<close>: the list of its code units,
  for code units below 256 (Latin-1). The white space class \<open>\s\<close> of a regular
  expression is, in that range, the ASCII white space and the no-break space.
\<close>

fun startsWith :: "string \<Rightarrow> string \<Rightarrow> bool" where
  "startsWith s [] = True"
| "startsWith [] (c # cs) = False"
| "startsWith (x # xs) (c # cs) = (x = c \<and> startsWith xs cs)"

text \<open>\<open>String.prototype.includes\<close>: the argument occurs as a contiguous run.\<close>

fun str_includes :: "string \<Rightarrow> string \<Rightarrow> bool" where
  "str_includes [] sub = (sub = [])"
| "str_includes (x # xs) sub = (startsWith (x # xs) sub \<or> str_includes xs sub)"

text \<open>
  \<open>toLowerCase\<close>: the capitals below 256 are A to Z and the code units 192 to 222 but
  215 (the multiplication sign); each has its small letter 32 above it.
\<close>

definition toLowerChar :: "char \<Rightarrow> char" where
  "toLowerChar c =
     (case map_of (zip ''ABCDEFGHIJKLMNOPQRSTUVWXYZ'' ''abcdefghijklmnopqrstuvwxyz'') c of
        Some l \<Rightarrow> l
      | None \<Rightarrow>
          (let n = (of_char c :: nat)
           in if 192 \<le> n \<and> n \<le> 222 \<and> n \<noteq> 215 then char_of (n + 32) else c))"

text \<open>
  \<open>toUpperCase\<close>: a to z and the code units 224 to 254 but 247 (the division sign) have
  their capital 32 below them, and the sharp s (223) becomes two letters. The capitals
  of the micro sign (181) and of y with diaeresis (255) are code units above 255, which
  this string type does not hold: those two are kept as they are.
\<close>

definition toUpperChar :: "char \<Rightarrow> string" where
  "toUpperChar c =
     (case map_of (zip ''abcdefghijklmnopqrstuvwxyz'' ''ABCDEFGHIJKLMNOPQRSTUVWXYZ'') c of
        Some u \<Rightarrow> [u]
      | None \<Rightarrow>
          (let n = (of_char c :: nat)
           in if n = 223 then ''SS''
              else if 224 \<le> n \<and> n \<le> 254 \<and> n \<noteq> 247 then [char_of (n - 32)]
              else [c]))"

definition toLowerCase :: "string \<Rightarrow> string" where
  "toLowerCase s = map toLowerChar s"

definition toUpperCase :: "string \<Rightarrow> string" where
  "toUpperCase s = concat (map toUpperChar s)"

text \<open>\<open>s.replace(pat, rep)\<close> with a string pattern: the first occurrence only.\<close>

fun replaceFirst :: "string \<Rightarrow> string \<Rightarrow> string \<Rightarrow> string" where
  "replaceFirst [] pat rep = (if pat = [] then rep else [])"
| "replaceFirst (c # cs) pat rep =
     (if startsWith (c # cs) pat then rep @ drop (length pat) (c # cs)
      else c # replaceFirst cs pat rep)"

definition endsWith :: "string \<Rightarrow> string \<Rightarrow> bool" where
  "endsWith s suf = startsWith (rev s) (rev suf)"

text \<open>\<open>s.replace(/\.plist$/, '')\<close>.\<close>

definition stripPlistSuffix :: "string \<Rightarrow> string" where
  "stripPlistSuffix s = (if endsWith s ''.plist'' then take (length s - 6) s else s)"

definition isUpperAZ :: "char \<Rightarrow> bool" where
  "isUpperAZ c = (c \<in> set ''ABCDEFGHIJKLMNOPQRSTUVWXYZ'')"

definition isSpace :: "char \<Rightarrow> bool" where
  "isSpace c = ((of_char c :: nat) \<in> {9, 10, 11, 12, 13, 32, 160})"

definition isDigit :: "char \<Rightarrow> bool" where
  "isDigit c = (c \<in> set ''0123456789'')"

text \<open>
  \<open>s.replace(/^[A-Z]{2,}\s+/, '')\<close>: the two classes are disjoint, so the expression
  matches exactly when the leading run of capitals has two letters or more and white
  space follows it; the capitals and all of that white space go.
\<close>

definition stripVendorTag :: "string \<Rightarrow> string" where
  "stripVendorTag s =
     (let caps = takeWhile isUpperAZ s; rest = dropWhile isUpperAZ s
      in if 2 \<le> length caps \<and> rest \<noteq> [] \<and> isSpace (hd rest)
         then dropWhile isSpace rest else s)"

text \<open>The decimal numeral of a natural number, as a template literal prints it.\<close>

fun showNat :: "nat \<Rightarrow> string" where
  "showNat n =
     (if n < 10 then [''0123456789'' ! n]
      else showNat (n div 10) @ [''0123456789'' ! (n mod 10)])"

declare showNat.simps [simp del]

text \<open>\<open>s.split('/').pop()\<close>: what follows the last slash.\<close>

definition lastSegment :: "string \<Rightarrow> string" where
  "lastSegment s = rev (takeWhile (\<lambda>c. c \<noteq> CHR ''/'') (rev s))"

section \<open>JavaScript values\<close>

text \<open>
  A number is a double: not-a-number, an infinity or a finite value (a rational; the two
  zeros are one value, which no operation of this program tells apart).
\<close>

datatype jsnum = NaN | NegInf | Finite rat | PosInf

text \<open>
  The values \<open>parsePlistValue\<close> builds: strings, numbers, booleans, dictionaries
  (plain objects, as association lists), arrays and \<open>Date\<close> objects (kept as the text
  they are built from); \<open>JUndefined\<close> is what reading a missing property gives.
\<close>

datatype jsval =
    JUndefined
  | JStr string
  | JNum jsnum
  | JBool bool
  | JObj "(string \<times> jsval) list"
  | JArr "jsval list"
  | JDate string

text \<open>
  What the program takes from the JavaScript runtime. \<open>parseInt\<close> and \<open>parseFloat\<close> are
  the built-in functions (\<open>parseInt\<close> in base 10); \<open>toNumberOf\<close> is the number the
  relational operators convert a string, an array, a dictionary or a \<open>Date\<close> to;
  \<open>dateNow i\<close> and \<open>mathRandom i\<close> are what \<open>Date.now()\<close> and
  \<open>Math.random().toString(36).substr(2, 9)\<close> give while articulation number \<open>i\<close> is
  built. The general theorems hold for every runtime.
\<close>

record platform =
  parseInt :: "string \<Rightarrow> jsnum"
  parseFloat :: "string \<Rightarrow> jsnum"
  toNumberOf :: "jsval \<Rightarrow> jsnum"
  dateNow :: "nat \<Rightarrow> nat"
  mathRandom :: "nat \<Rightarrow> string"

fun truthy :: "jsval \<Rightarrow> bool" where
  "truthy JUndefined = False"
| "truthy (JStr s) = (s \<noteq> [])"
| "truthy (JNum NaN) = False"
| "truthy (JNum (Finite q)) = (q \<noteq> 0)"
| "truthy (JNum NegInf) = True"
| "truthy (JNum PosInf) = True"
| "truthy (JBool b) = b"
| "truthy (JObj d) = True"
| "truthy (JArr xs) = True"
| "truthy (JDate s) = True"

text \<open>\<open>a || b\<close> and \<open>a ?? b\<close> (no value of this program is \<open>null\<close>).\<close>

definition lor :: "jsval \<Rightarrow> jsval \<Rightarrow> jsval" where
  "lor a b = (if truthy a then a else b)"

definition nullish :: "jsval \<Rightarrow> jsval \<Rightarrow> jsval" where
  "nullish a b = (if a = JUndefined then b else a)"

fun isObject :: "jsval \<Rightarrow> bool" where
  "isObject (JObj d) = True"
| "isObject (JArr xs) = True"
| "isObject (JDate s) = True"
| "isObject v = False"

text \<open>
  A dictionary is a plain object: its own properties, and a prototype when one was
  installed. No assignment makes an own property named \<open>__proto__\<close>, so the entry of that
  name in the association list is the prototype. \<open>v[k]\<close> reads an own property or follows
  the prototypes; none of the keys the program reads is a property of a string, an
  array, a number, a \<open>Date\<close> or \<open>Object.prototype\<close>.
\<close>

fun getProp :: "jsval \<Rightarrow> string \<Rightarrow> jsval"
  and inherited :: "(string \<times> jsval) list \<Rightarrow> string \<Rightarrow> jsval" where
  "getProp (JObj d) k = (case map_of d k of Some v \<Rightarrow> v | None \<Rightarrow> inherited d k)"
| "getProp JUndefined k = JUndefined"
| "getProp (JStr s) k = JUndefined"
| "getProp (JNum n) k = JUndefined"
| "getProp (JBool b) k = JUndefined"
| "getProp (JArr xs) k = JUndefined"
| "getProp (JDate s) k = JUndefined"
| "inherited [] k = JUndefined"
| "inherited ((k', v) # ps) k = (if k' = ''__proto__'' then getProp v k else inherited ps k)"

fun setProp :: "(string \<times> jsval) list \<Rightarrow> string \<Rightarrow> jsval \<Rightarrow> (string \<times> jsval) list" where
  "setProp [] k v = [(k, v)]"
| "setProp (p # ps) k v = (if fst p = k then (k, v) # ps else p # setProp ps k v)"

text \<open>
  \<open>d[k] = v\<close> on a plain object: for the key \<open>__proto__\<close> it calls the setter of
  \<open>Object.prototype\<close>, which installs an object as the prototype and ignores any other
  value; for every other key it writes an own property.
\<close>

definition assignProp ::
  "(string \<times> jsval) list \<Rightarrow> string \<Rightarrow> jsval \<Rightarrow> (string \<times> jsval) list" where
  "assignProp d k v =
     (if k = ''__proto__'' then (if isObject v then setProp d k v else d) else setProp d k v)"

text \<open>
  The own property \<open>k\<close> of an object that \<open>JSON.parse\<close> built (there \<open>__proto__\<close> is an
  own property like any other, and the prototype is \<open>Object.prototype\<close>).
\<close>

definition ownProp :: "(string \<times> jsval) list \<Rightarrow> string \<Rightarrow> jsval" where
  "ownProp d k = (case map_of d k of Some v \<Rightarrow> v | None \<Rightarrow> JUndefined)"

fun toNumber :: "platform \<Rightarrow> jsval \<Rightarrow> jsnum" where
  "toNumber js (JNum n) = n"
| "toNumber js (JBool b) = Finite (if b then 1 else 0)"
| "toNumber js JUndefined = NaN"
| "toNumber js v = toNumberOf js v"

text \<open>\<open>v >= 0\<close> and \<open>v <= 127\<close>.\<close>

definition ge0 :: "platform \<Rightarrow> jsval \<Rightarrow> bool" where
  "ge0 js v = (case toNumber js v of Finite q \<Rightarrow> 0 \<le> q | PosInf \<Rightarrow> True | _ \<Rightarrow> False)"

definition le127 :: "platform \<Rightarrow> jsval \<Rightarrow> bool" where
  "le127 js v = (case toNumber js v of Finite q \<Rightarrow> q \<le> 127 | NegInf \<Rightarrow> True | _ \<Rightarrow> False)"

text \<open>
  The keys of a \<open>Map\<close> are compared by SameValueZero: primitives by value, objects by
  identity, and no object read from one dictionary is an object of another.
\<close>

definition sameValueZero :: "jsval \<Rightarrow> jsval \<Rightarrow> bool" where
  "sameValueZero a b = (\<not> isObject a \<and> a = b)"

text \<open>
  A \<open>Map\<close> as the list of its \<open>set\<close> calls, oldest first; \<open>get\<close> answers with the
  latest call for the key.
\<close>

definition mapGet :: "(jsval \<times> jsval) list \<Rightarrow> jsval \<Rightarrow> jsval" where
  "mapGet m k =
     (case filter (\<lambda>p. sameValueZero (fst p) k) m of
        [] \<Rightarrow> JUndefined
      | p # ps \<Rightarrow> snd (last (p # ps)))"

section \<open>Property lists\<close>

text \<open>
  The document the XML parser returns: an element has a tag name, a text content and
  child elements. \<open>querySelector('plist > dict')\<close> is the first element, in document
  order, that is a \<open>dict\<close> and a child of a \<open>plist\<close>.
\<close>

datatype element = Element (tagName: string) (textContent: string) (children: "element list")

fun querySelector :: "string \<Rightarrow> element \<Rightarrow> element option"
  and querySelectorIn :: "string \<Rightarrow> element list \<Rightarrow> element option" where
  "querySelector parent (Element t txt cs) =
     (if t = ''dict'' \<and> parent = ''plist'' then Some (Element t txt cs)
      else querySelectorIn t cs)"
| "querySelectorIn parent [] = None"
| "querySelectorIn parent (c # cs) =
     (case querySelector parent c of Some e \<Rightarrow> Some e | None \<Rightarrow> querySelectorIn parent cs)"

fun parsePlistValue :: "platform \<Rightarrow> element \<Rightarrow> jsval"
  and parsePlistPairs ::
    "platform \<Rightarrow> element list \<Rightarrow> (string \<times> jsval) list \<Rightarrow> (string \<times> jsval) list"
  and parsePlistArray :: "platform \<Rightarrow> element list \<Rightarrow> jsval list" where
  "parsePlistValue js (Element t txt cs) =
     (if t = ''string'' then JStr txt
      else if t = ''integer'' then JNum (parseInt js (if txt = [] then ''0'' else txt))
      else if t = ''real'' then JNum (parseFloat js (if txt = [] then ''0'' else txt))
      else if t = ''true'' then JBool True
      else if t = ''false'' then JBool False
      else if t = ''dict'' then JObj (parsePlistPairs js cs [])
      else if t = ''array'' then JArr (parsePlistArray js cs)
      else if t = ''data'' then JStr txt
      else if t = ''date'' then JDate txt
      else JStr txt)"
| "parsePlistPairs js [] result = result"
| "parsePlistPairs js [k] result = result"
| "parsePlistPairs js (k # v # rest) result =
     parsePlistPairs js rest
       (if tagName k = ''key'' then assignProp result (textContent k) (parsePlistValue js v)
        else result)"
| "parsePlistArray js [] = []"
| "parsePlistArray js (c # cs) = parsePlistValue js c # parsePlistArray js cs"

definition parsePlistDict :: "platform \<Rightarrow> element \<Rightarrow> (string \<times> jsval) list" where
  "parsePlistDict js dictElement = parsePlistPairs js (children dictElement) []"

section \<open>The articulation model\<close>

text \<open>
  The interfaces of the parser module. The declared types of the fields are not checked
  when the program runs, so a field the parser fills from the document holds whatever
  value the document gives: such fields are \<open>jsval\<close>.
\<close>

record MidiMessage =
  status :: int
  data1 :: jsval
  data2 :: jsval

record RemoteTrigger =
  rt_status :: int
  rt_data1 :: jsval
  isAutoAssigned :: "bool option"

record Articulation =
  art_id :: string
  name :: jsval
  shortName :: jsval
  description :: jsval
  color :: jsval
  group :: jsval
  midiMessages :: "MidiMessage list"
  remoteTrigger :: "RemoteTrigger option"
  keySwitch :: jsval
  articulationType :: nat
  midiChannel :: "int option"
  sourceMap :: "string option"

record ArticulationSet =
  set_name :: string
  fileName :: string
  articulations :: "Articulation list"
  isMerged :: "bool option"
  sourceMapNames :: "string list option"

datatype error =
    InvalidPlist
  | TypeError
  | NoMoreNotes

section \<open>The parser\<close>

text \<open>
  The status a \<open>Status\<close> string stands for (the conditional chain the parser writes out
  for the output and again for the switch).
\<close>

definition statusOf :: "jsval \<Rightarrow> int" where
  "statusOf s =
     (if s = JStr ''Note On'' then 144
      else if s = JStr ''Control Change'' then 176
      else if s = JStr ''Poly Pressure'' then 160
      else 144)"

definition numOfNat :: "nat \<Rightarrow> jsval" where
  "numOfNat n = JNum (Finite (of_nat n))"

text \<open>The \<open>ccMessages.forEach\<close> loop, run only when \<open>ccMessages\<close> is an array.\<close>

fun ccMessagesOf :: "jsval list \<Rightarrow> MidiMessage list" where
  "ccMessagesOf [] = []"
| "ccMessagesOf (cc # ccs) =
     (if getProp cc ''Number'' \<noteq> JUndefined \<and> getProp cc ''Value'' \<noteq> JUndefined
      then \<lparr>status = 176, data1 = getProp cc ''Number'', data2 = getProp cc ''Value''\<rparr>
           # ccMessagesOf ccs
      else ccMessagesOf ccs)"

text \<open>
  Two constants of the loop body: \<open>outputSettings\<close>, and the \<open>artId\<close> the switch is looked
  up by.
\<close>

definition outputSettingsOf :: "jsval \<Rightarrow> jsval" where
  "outputSettingsOf artData =
     lor (getProp artData ''Output'') (lor (getProp artData ''output'') (JObj []))"

definition artIdOf :: "jsval \<Rightarrow> jsval" where
  "artIdOf artData = lor (getProp artData ''ID'') (getProp artData ''id'')"

text \<open>The messages pushed for one articulation entry, in the order of the pushes.\<close>

definition outputMessages :: "platform \<Rightarrow> jsval \<Rightarrow> MidiMessage list" where
  "outputMessages js outputSettings =
     (let mb1 = getProp outputSettings ''MB1'';
          statusStr = lor (getProp outputSettings ''Status'') (JStr ''Note On'');
          keySwitch = nullish (getProp outputSettings ''Note'') (getProp outputSettings ''note'');
          ccMessages =
            lor (getProp outputSettings ''CC'') (lor (getProp outputSettings ''cc'') (JArr []))
      in (if mb1 \<noteq> JUndefined \<and> ge0 js mb1 \<and> le127 js mb1
          then [\<lparr>status = statusOf statusStr, data1 = mb1,
                 data2 = lor (getProp outputSettings ''ValueLow'') (numOfNat 127)\<rparr>]
          else [])
         @ (if keySwitch \<noteq> JUndefined \<and> ge0 js keySwitch \<and> le127 js keySwitch
            then [\<lparr>status = 144, data1 = keySwitch,
                   data2 = lor (getProp outputSettings ''Velocity'') (numOfNat 127)\<rparr>]
            else [])
         @ (case ccMessages of JArr ccs \<Rightarrow> ccMessagesOf ccs | _ \<Rightarrow> []))"

text \<open>
  The remote trigger of one entry: the switch the entry's \<open>ID\<close> names, when that switch
  has a note number in range; otherwise the entry's own \<open>MB1\<close>.
\<close>

definition remoteTriggerOf ::
  "platform \<Rightarrow> (jsval \<times> jsval) list \<Rightarrow> jsval \<Rightarrow> jsval \<Rightarrow> RemoteTrigger option" where
  "remoteTriggerOf js switchesMap artData mb1 =
     (let artId = artIdOf artData;
          switchData = mapGet switchesMap artId;
          switchMb1 = getProp switchData ''MB1'';
          switchStatus = lor (getProp switchData ''Status'') (JStr ''Note On'');
          fromSwitch =
            (if truthy switchData \<and> switchMb1 \<noteq> JUndefined \<and> ge0 js switchMb1
                \<and> le127 js switchMb1
             then Some \<lparr>rt_status = statusOf switchStatus, rt_data1 = switchMb1,
                         isAutoAssigned = Some False\<rparr>
             else None)
      in if fromSwitch = None \<and> mb1 \<noteq> JUndefined \<and> ge0 js mb1
         then Some \<lparr>rt_status = 144, rt_data1 = mb1, isAutoAssigned = Some True\<rparr>
         else fromSwitch)"

text \<open>
  The body of \<open>articulationsData.forEach\<close> for the entry at \<open>index\<close>. It throws a
  \<open>TypeError\<close> when the short name has to be cut from a name that is not a string.
\<close>

definition parseArticulation ::
  "platform \<Rightarrow> (jsval \<times> jsval) list \<Rightarrow> jsval \<Rightarrow> nat \<Rightarrow> error + Articulation" where
  "parseArticulation js switchesMap artData index =
     (let name0 =
            lor (getProp artData ''Name'')
              (lor (getProp artData ''name'') (JStr (''Articulation '' @ showNat (index + 1))));
          shortGiven = lor (getProp artData ''ShortName'') (getProp artData ''shortName'');
          outputSettings = outputSettingsOf artData;
          mb1 = getProp outputSettings ''MB1'';
          keySwitch0 = nullish (getProp outputSettings ''Note'') (getProp outputSettings ''note'');
          artType = lor (getProp artData ''Type'') (lor (getProp artData ''type'') (JStr ''attribute''))
      in case (if truthy shortGiven then Inr shortGiven
               else (case name0 of
                       JStr s \<Rightarrow> Inr (JStr (toUpperCase (take 4 s)))
                     | _ \<Rightarrow> Inl TypeError)) of
           Inl e \<Rightarrow> Inl e
         | Inr shortName0 \<Rightarrow>
             Inr \<lparr>art_id =
                    ''logic_art_'' @ showNat index @ ''_'' @ showNat (dateNow js index)
                      @ ''_'' @ mathRandom js index,
                  name = name0,
                  shortName = shortName0,
                  description =
                    lor (getProp artData ''Description'') (lor (getProp artData ''description'') name0),
                  color =
                    lor (getProp artData ''Color'')
                      (lor (getProp artData ''color'') (numOfNat (index mod 16))),
                  group = lor (getProp artData ''Group'') (lor (getProp artData ''group'') (numOfNat 0)),
                  midiMessages = outputMessages js outputSettings,
                  remoteTrigger = remoteTriggerOf js switchesMap artData mb1,
                  keySwitch = nullish mb1 keySwitch0,
                  articulationType = (if artType = JStr ''direction'' then 1 else 0),
                  midiChannel = None,
                  sourceMap = None\<rparr>)"

text \<open>\<open>articulationsData.forEach\<close>: the entries in order, stopping at the first throw.\<close>

fun parseArticulations ::
  "platform \<Rightarrow> (jsval \<times> jsval) list \<Rightarrow> jsval list \<Rightarrow> nat \<Rightarrow> error + Articulation list" where
  "parseArticulations js switchesMap [] index = Inr []"
| "parseArticulations js switchesMap (artData # rest) index =
     (case parseArticulation js switchesMap artData index of
        Inl e \<Rightarrow> Inl e
      | Inr a \<Rightarrow>
          (case parseArticulations js switchesMap rest (index + 1) of
             Inl e \<Rightarrow> Inl e
           | Inr as \<Rightarrow> Inr (a # as)))"

text \<open>\<open>switchesData.forEach\<close>: one \<open>set\<close> call for each switch that has an \<open>ID\<close>.\<close>

fun buildSwitchesMap :: "jsval list \<Rightarrow> (jsval \<times> jsval) list" where
  "buildSwitchesMap [] = []"
| "buildSwitchesMap (sw # sws) =
     (if getProp sw ''ID'' \<noteq> JUndefined then (getProp sw ''ID'', sw) # buildSwitchesMap sws
      else buildSwitchesMap sws)"

text \<open>
  \<open>parseLogicArticulationSet\<close>, on the document the XML parser returned for the content.
  A set name that is not a string has no \<open>replace\<close>, and a list of articulations or of
  switches that is not an array has no \<open>forEach\<close>: both throw a \<open>TypeError\<close>. (A
  dictionary that the document gave an array as prototype would inherit \<open>forEach\<close>; the
  model does not follow that case and takes every dictionary there to throw.)
\<close>

definition parseLogicArticulationSet ::
  "platform \<Rightarrow> element \<Rightarrow> string \<Rightarrow> error + ArticulationSet" where
  "parseLogicArticulationSet js doc fileName0 =
     (case querySelector [] doc of
        None \<Rightarrow> Inl InvalidPlist
      | Some rootDict \<Rightarrow>
          (let rootData = JObj (parsePlistDict js rootDict);
               setName0 =
                 lor (getProp rootData ''Name'')
                   (lor (getProp rootData ''name'') (JStr (replaceFirst fileName0 ''.plist'' [])));
               articulationsData =
                 lor (getProp rootData ''Articulations'')
                   (lor (getProp rootData ''articulations'') (JArr []));
               switchesData =
                 lor (getProp rootData ''Switches'') (lor (getProp rootData ''switches'') (JArr []))
           in case setName0 of
                JStr s \<Rightarrow>
                  (case switchesData of
                     JArr sws \<Rightarrow>
                       (case articulationsData of
                          JArr arts \<Rightarrow>
                            (case parseArticulations js (buildSwitchesMap sws) arts 0 of
                               Inl e \<Rightarrow> Inl e
                             | Inr as \<Rightarrow>
                                 Inr \<lparr>set_name = stripVendorTag (stripPlistSuffix s),
                                      fileName = fileName0,
                                      articulations = as,
                                      isMerged = None,
                                      sourceMapNames = None\<rparr>)
                        | _ \<Rightarrow> Inl TypeError)
                   | _ \<Rightarrow> Inl TypeError)
              | _ \<Rightarrow> Inl TypeError))"

text \<open>A parse result with the generated ids blanked.\<close>

definition withoutIds :: "error + ArticulationSet \<Rightarrow> error + ArticulationSet" where
  "withoutIds r =
     (case r of
        Inl e \<Rightarrow> Inl e
      | Inr s \<Rightarrow> Inr (s\<lparr>articulations := map (\<lambda>a. a\<lparr>art_id := []\<rparr>) (articulations s)\<rparr>))"

section \<open>A runtime for the examples\<close>

text \<open>
  \<open>parseInt(s, 10)\<close>: leading white space, a sign, then the longest run of decimal
  digits; no digit gives not-a-number. The value is exact here; the built-in function
  rounds it to a double, which changes nothing below \<open>2 ^ 53\<close>.
\<close>

definition digitsValue :: "string \<Rightarrow> nat" where
  "digitsValue ds = foldl (\<lambda>acc c. 10 * acc + (of_char c - 48)) 0 ds"

definition parseInt10 :: "string \<Rightarrow> jsnum" where
  "parseInt10 s =
     (let t = dropWhile isSpace s;
          neg = (t \<noteq> [] \<and> hd t = CHR ''-'');
          u = (if t \<noteq> [] \<and> (hd t = CHR ''-'' \<or> hd t = CHR ''+'') then tl t else t);
          ds = takeWhile isDigit u
      in if ds = [] then NaN
         else Finite (of_int ((if neg then - 1 else 1) * int (digitsValue ds))))"

text \<open>
  The examples read integers and strings only. Their runtime answers \<open>parseInt\<close> as
  above; it is never asked for anything else, and answers not-a-number, time 0 and an
  empty random suffix there.
\<close>

definition exampleRuntime :: platform where
  "exampleRuntime =
     \<lparr>parseInt = parseInt10, parseFloat = (\<lambda>s. NaN), toNumberOf = (\<lambda>v. NaN),
      dateNow = (\<lambda>i. 0), mathRandom = (\<lambda>i. [])\<rparr>"

definition key :: "string \<Rightarrow> element" where
  "key k = Element ''key'' k []"

definition integer :: "string \<Rightarrow> element" where
  "integer n = Element ''integer'' n []"

definition str :: "string \<Rightarrow> element" where
  "str s = Element ''string'' s []"

definition dict :: "element list \<Rightarrow> element" where
  "dict cs = Element ''dict'' [] cs"

definition array :: "element list \<Rightarrow> element" where
  "array cs = Element ''array'' [] cs"

definition plist :: "element list \<Rightarrow> element" where
  "plist cs = Element ''plist'' [] cs"

text \<open>
  The Format B document: one switch \<open>{ID: 1, MB1: 62, Status: "Note On"}\<close> and one
  articulation \<open>{ID: 1, Output: {MB1: 60, Status: "Note On"}}\<close>.
\<close>

definition formatB_doc :: element where
  "formatB_doc =
     plist [dict
       [key ''Switches'',
        array [dict [key ''ID'', integer ''1'', key ''MB1'', integer ''62'',
                     key ''Status'', str ''Note On'']],
        key ''Articulations'',
        array [dict [key ''ID'', integer ''1'',
                     key ''Output'',
                     dict [key ''MB1'', integer ''60'', key ''Status'', str ''Note On'']]]]]"

section \<open>Auto-assignment of remote triggers\<close>

definition numOfInt :: "int \<Rightarrow> jsval" where
  "numOfInt n = JNum (Finite (of_int n))"

text \<open>
  The set \<open>usedNotes\<close> after the first \<open>forEach\<close>: the notes of the remote triggers that
  are not marked auto-assigned. \<open>usedNotes.has(n)\<close> for a number \<open>n\<close> is membership of
  that number.
\<close>

fun initialUsedNotes :: "Articulation list \<Rightarrow> jsval set" where
  "initialUsedNotes [] = {}"
| "initialUsedNotes (art # arts) =
     (case remoteTrigger art of
        Some rt \<Rightarrow>
          (if isAutoAssigned rt \<noteq> Some True
           then insert (rt_data1 rt) (initialUsedNotes arts)
           else initialUsedNotes arts)
      | None \<Rightarrow> initialUsedNotes arts)"

text \<open>The \<open>while\<close> loop of \<open>getNextAvailableNote\<close>; the start note is an integer.\<close>

function skipUsed :: "jsval set \<Rightarrow> int \<Rightarrow> int" where
  "skipUsed usedNotes nextNote =
     (if numOfInt nextNote \<in> usedNotes \<and> nextNote \<le> 127
      then skipUsed usedNotes (nextNote + 1) else nextNote)"
  by pat_completeness auto
termination
  by (relation "measure (\<lambda>(usedNotes, nextNote). nat (128 - nextNote))") auto

declare skipUsed.simps [simp del]

text \<open>
  \<open>getNextAvailableNote\<close> on the closure's state \<open>(usedNotes, nextNote)\<close>: the note and
  the new state, or the error thrown.
\<close>

definition getNextAvailableNote ::
  "jsval set \<times> int \<Rightarrow> error + (int \<times> (jsval set \<times> int))" where
  "getNextAvailableNote st =
     (let nextNote = skipUsed (fst st) (snd st)
      in if nextNote > 127 then Inl NoMoreNotes
         else Inr (nextNote, (insert (numOfInt nextNote) (fst st), nextNote + 1)))"

text \<open>\<open>artSet.articulations.map\<close>: the callback on each articulation, in order.\<close>

fun assignAll :: "Articulation list \<Rightarrow> jsval set \<times> int \<Rightarrow> error + Articulation list" where
  "assignAll [] st = Inr []"
| "assignAll (art # arts) st =
     (case remoteTrigger art of
        Some rt \<Rightarrow>
          (case assignAll arts st of Inl e \<Rightarrow> Inl e | Inr as \<Rightarrow> Inr (art # as))
      | None \<Rightarrow>
          (case getNextAvailableNote st of
             Inl e \<Rightarrow> Inl e
           | Inr (note, st') \<Rightarrow>
               (case assignAll arts st' of
                  Inl e \<Rightarrow> Inl e
                | Inr as \<Rightarrow>
                    Inr (art\<lparr>remoteTrigger :=
                               Some \<lparr>rt_status = 144, rt_data1 = numOfInt note,
                                     isAutoAssigned = Some True\<rparr>\<rparr> # as))))"

definition autoAssignRemoteTriggers :: "ArticulationSet \<Rightarrow> int \<Rightarrow> error + ArticulationSet" where
  "autoAssignRemoteTriggers artSet startNote =
     (case assignAll (articulations artSet)
             (initialUsedNotes (articulations artSet), startNote) of
        Inl e \<Rightarrow> Inl e
      | Inr as \<Rightarrow> Inr (artSet\<lparr>articulations := as\<rparr>))"

definition hasUnassignedRemotes :: "ArticulationSet \<Rightarrow> bool" where
  "hasUnassignedRemotes artSet = list_ex (\<lambda>art. remoteTrigger art = None) (articulations artSet)"

definition countAutoAssignedRemotes :: "ArticulationSet \<Rightarrow> nat" where
  "countAutoAssignedRemotes artSet =
     length (filter (\<lambda>art. case remoteTrigger art of
                              Some rt \<Rightarrow> isAutoAssigned rt = Some True
                            | None \<Rightarrow> False)
               (articulations artSet))"

text \<open>The articulations that still need a note, and the notes a scan from \<open>n\<close> can give.\<close>

definition needingNote :: "Articulation list \<Rightarrow> nat" where
  "needingNote arts = length (filter (\<lambda>art. remoteTrigger art = None) arts)"

definition freeNotes :: "jsval set \<Rightarrow> int \<Rightarrow> int set" where
  "freeNotes usedNotes n = {k. n \<le> k \<and> k \<le> 127 \<and> numOfInt k \<notin> usedNotes}"

section \<open>Auto-assignment on a store\<close>

text \<open>
  The same function with its objects in a store, to say what it writes. A store is the
  list of the objects allocated so far and a reference is an index into it: an
  articulation object, an array of references, or a set object (name, file name,
  reference to the array of its articulations, and the two optional fields). \<open>map\<close>
  builds a new array, the callback returns the reference it was given or a reference to
  a new object, and the result is a new set object. Reading a reference that does not
  hold what is expected throws a \<open>TypeError\<close>.
\<close>

datatype cell =
    ArticulationObj Articulation
  | ArrayObj "nat list"
  | SetObj string string nat "bool option" "string list option"

type_synonym store = "cell list"

definition alloc :: "store \<Rightarrow> cell \<Rightarrow> store \<times> nat" where
  "alloc \<sigma> c = (\<sigma> @ [c], length \<sigma>)"

definition readCell :: "store \<Rightarrow> nat \<Rightarrow> cell option" where
  "readCell \<sigma> a = (if a < length \<sigma> then Some (\<sigma> ! a) else None)"

fun readArticulations :: "store \<Rightarrow> nat list \<Rightarrow> Articulation list option" where
  "readArticulations \<sigma> [] = Some []"
| "readArticulations \<sigma> (r # rs) =
     (case readCell \<sigma> r of
        Some (ArticulationObj art) \<Rightarrow> map_option ((#) art) (readArticulations \<sigma> rs)
      | _ \<Rightarrow> None)"

definition readSet :: "store \<Rightarrow> nat \<Rightarrow> ArticulationSet option" where
  "readSet \<sigma> r =
     (case readCell \<sigma> r of
        Some (SetObj n f arr im sm) \<Rightarrow>
          (case readCell \<sigma> arr of
             Some (ArrayObj refs) \<Rightarrow>
               map_option
                 (\<lambda>as. \<lparr>set_name = n, fileName = f, articulations = as, isMerged = im,
                        sourceMapNames = sm\<rparr>)
                 (readArticulations \<sigma> refs)
           | _ \<Rightarrow> None)
      | _ \<Rightarrow> None)"

fun mapOnStore :: "store \<Rightarrow> nat list \<Rightarrow> jsval set \<times> int \<Rightarrow> store \<times> (error + nat list)" where
  "mapOnStore \<sigma> [] st = (\<sigma>, Inr [])"
| "mapOnStore \<sigma> (r # rs) st =
     (case readCell \<sigma> r of
        Some (ArticulationObj art) \<Rightarrow>
          (case remoteTrigger art of
             Some rt \<Rightarrow>
               (case mapOnStore \<sigma> rs st of
                  (\<sigma>', Inl e) \<Rightarrow> (\<sigma>', Inl e)
                | (\<sigma>', Inr rs') \<Rightarrow> (\<sigma>', Inr (r # rs')))
           | None \<Rightarrow>
               (case getNextAvailableNote st of
                  Inl e \<Rightarrow> (\<sigma>, Inl e)
                | Inr (note, st') \<Rightarrow>
                    (case alloc \<sigma>
                            (ArticulationObj
                               (art\<lparr>remoteTrigger :=
                                      Some \<lparr>rt_status = 144, rt_data1 = numOfInt note,
                                            isAutoAssigned = Some True\<rparr>\<rparr>)) of
                       (\<sigma>1, r1) \<Rightarrow>
                         (case mapOnStore \<sigma>1 rs st' of
                            (\<sigma>', Inl e) \<Rightarrow> (\<sigma>', Inl e)
                          | (\<sigma>', Inr rs') \<Rightarrow> (\<sigma>', Inr (r1 # rs'))))))
      | _ \<Rightarrow> (\<sigma>, Inl TypeError))"

definition autoAssignOnStore :: "store \<Rightarrow> nat \<Rightarrow> int \<Rightarrow> store \<times> (error + nat)" where
  "autoAssignOnStore \<sigma> artSet startNote =
     (case readCell \<sigma> artSet of
        Some (SetObj n f arr im sm) \<Rightarrow>
          (case readCell \<sigma> arr of
             Some (ArrayObj refs) \<Rightarrow>
               (case readArticulations \<sigma> refs of
                  Some arts \<Rightarrow>
                    (case mapOnStore \<sigma> refs (initialUsedNotes arts, startNote) of
                       (\<sigma>1, Inl e) \<Rightarrow> (\<sigma>1, Inl e)
                     | (\<sigma>1, Inr updatedArticulations) \<Rightarrow>
                         (case alloc \<sigma>1 (ArrayObj updatedArticulations) of
                            (\<sigma>2, arr') \<Rightarrow>
                              (case alloc \<sigma>2 (SetObj n f arr' im sm) of
                                 (\<sigma>3, result) \<Rightarrow> (\<sigma>3, Inr result))))
                | None \<Rightarrow> (\<sigma>, Inl TypeError))
           | _ \<Rightarrow> (\<sigma>, Inl TypeError))
      | _ \<Rightarrow> (\<sigma>, Inl TypeError))"

text \<open>A store that holds a set and nothing else, and the reference to the set in it.\<close>

definition storeOf :: "ArticulationSet \<Rightarrow> store" where
  "storeOf s =
     map ArticulationObj (articulations s)
     @ [ArrayObj [0..<length (articulations s)],
        SetObj (set_name s) (fileName s) (length (articulations s)) (isMerged s)
          (sourceMapNames s)]"

definition refOf :: "ArticulationSet \<Rightarrow> nat" where
  "refOf s = Suc (length (articulations s))"

section \<open>Matching a track name to a set\<close>

record CatalogueEntry =
  entry_name :: string
  entry_path :: string
  fullPath :: string

text \<open>The entry \<open>GET\<close> makes of one file found under the library directory \<open>dir\<close>.\<close>

definition catalogueEntry :: "string \<Rightarrow> string \<Rightarrow> CatalogueEntry" where
  "catalogueEntry dir path =
     (let relativePath = replaceFirst path (dir @ ''/'') []
      in \<lparr>entry_name = lastSegment (replaceFirst relativePath ''.plist'' []),
          entry_path = relativePath,
          fullPath = path\<rparr>)"

text \<open>
  The test the handler and the route make on two names:
  \<open>a.toLowerCase().includes(b.toLowerCase())\<close>.
\<close>

definition includesIgnoringCase :: "string \<Rightarrow> string \<Rightarrow> bool" where
  "includesIgnoringCase a b = str_includes (toLowerCase a) (toLowerCase b)"

text \<open>
  \<open>GET /api/articulations\<close>: the sets the route answers with, for the files found and
  the \<open>search\<close> parameter of the request.
\<close>

definition GET :: "string \<Rightarrow> string list \<Rightarrow> string option \<Rightarrow> CatalogueEntry list" where
  "GET dir plistFiles searchParam =
     (let search = map_option toLowerCase searchParam;
          sets = map (catalogueEntry dir) plistFiles;
          found =
            (case search of
               Some q \<Rightarrow>
                 (if q \<noteq> []
                  then filter (\<lambda>s. str_includes (toLowerCase (entry_name s)) q
                                 \<or> str_includes (toLowerCase (entry_path s)) q) sets
                  else sets)
             | None \<Rightarrow> sets)
      in take 100 found)"

text \<open>The choice among the sets the search returned: \<open>exactMatch || data.sets[0]\<close>.\<close>

definition bestMatch :: "string \<Rightarrow> CatalogueEntry list \<Rightarrow> CatalogueEntry option" where
  "bestMatch trackName sets =
     (case sets of
        [] \<Rightarrow> None
      | s0 # rest \<Rightarrow>
          (case find (\<lambda>s. str_includes (toLowerCase (entry_name s)) (toLowerCase trackName))
                  sets of
             Some exactMatch \<Rightarrow> Some exactMatch
           | None \<Rightarrow> Some s0))"

text \<open>
  The loop over \<open>loadedSets\<close> (a \<open>Map\<close>, in insertion order): the first loaded set whose
  name contains the track name or is contained in it.
\<close>

definition cachedSet :: "(string \<times> ArticulationSet) list \<Rightarrow> string \<Rightarrow> ArticulationSet option" where
  "cachedSet loadedSets trackName =
     map_option snd
       (find (\<lambda>p. str_includes (toLowerCase (fst p)) (toLowerCase trackName)
                 \<or> str_includes (toLowerCase trackName) (toLowerCase (fst p)))
          loadedSets)"

datatype resolution =
    UseCached ArticulationSet
  | LoadSet CatalogueEntry
  | NoMatch

text \<open>
  The track-name handler up to the choice it makes: a loaded set, a file of the library
  to load, or nothing.
\<close>

definition onTrackName ::
  "string \<Rightarrow> string list \<Rightarrow> (string \<times> ArticulationSet) list \<Rightarrow> string \<Rightarrow> resolution" where
  "onTrackName dir plistFiles loadedSets trackName =
     (case cachedSet loadedSets trackName of
        Some artSet \<Rightarrow> UseCached artSet
      | None \<Rightarrow>
          (case bestMatch trackName (GET dir plistFiles (Some trackName)) of
             Some s \<Rightarrow> LoadSet s
           | None \<Rightarrow> NoMatch))"

section \<open>The MIDI handler of the display client\<close>

datatype readyState = CONNECTING | OPEN | CLOSING | CLOSED

text \<open>
  The fields of \<open>MidiHandler\<close> that sending reads: the global channel, the state of the
  WebSocket (if there is one) and the selected Web MIDI output (if there is one), which
  is known by whether its \<open>send\<close> accepts a message or throws.
\<close>

record MidiHandler =
  channel :: int
  webSocket :: "readyState option"
  selectedOutput :: "(int \<times> jsval \<times> jsval \<Rightarrow> bool) option"

definition newMidiHandler :: MidiHandler where
  "newMidiHandler = \<lparr>channel = 0, webSocket = None, selectedOutput = None\<rparr>"

text \<open>\<open>Math.max(0, Math.min(15, channel))\<close>, on an integer.\<close>

definition setChannel :: "MidiHandler \<Rightarrow> int \<Rightarrow> MidiHandler" where
  "setChannel h c = h\<lparr>channel := max 0 (min 15 c)\<rparr>"

definition getChannel :: "MidiHandler \<Rightarrow> int" where
  "getChannel h = channel h"

text \<open>
  The bitwise operators of JavaScript on integers: both operands are taken to 32 bits,
  signed.
\<close>

definition toInt32 :: "int \<Rightarrow> int" where
  "toInt32 x = signed_take_bit 31 x"

definition bitAnd :: "int \<Rightarrow> int \<Rightarrow> int" where
  "bitAnd a b = toInt32 a AND toInt32 b"

definition bitOr :: "int \<Rightarrow> int \<Rightarrow> int" where
  "bitOr a b = toInt32 a OR toInt32 b"

text \<open>The status byte \<open>sendMessages\<close> computes for a message, on either path.\<close>

definition channelStatus :: "bool \<Rightarrow> int \<Rightarrow> int \<Rightarrow> int" where
  "channelStatus useGlobalChannel ch st =
     (if useGlobalChannel \<and> st \<ge> 128 \<and> st < 240
      then (let messageType = bitAnd st 240 in bitOr messageType ch)
      else st)"

text \<open>What leaves the handler: a \<open>midi\<close> message on the WebSocket, or bytes on the output.\<close>

datatype sent =
    ViaWebSocket (sent_status: int) (sent_data1: jsval) (sent_data2: jsval)
  | ViaWebMidi (sent_status: int) (sent_data1: jsval) (sent_data2: jsval)

text \<open>The Web MIDI loop: it stops, answering \<open>false\<close>, at the first message that throws.\<close>

fun sendToOutput ::
  "(int \<times> jsval \<times> jsval \<Rightarrow> bool) \<Rightarrow> int \<Rightarrow> bool \<Rightarrow> MidiMessage list \<Rightarrow> bool \<times> sent list" where
  "sendToOutput out ch useGlobalChannel [] = (True, [])"
| "sendToOutput out ch useGlobalChannel (msg # msgs) =
     (let st = channelStatus useGlobalChannel ch (status msg)
      in if out (st, data1 msg, data2 msg)
         then (let r = sendToOutput out ch useGlobalChannel msgs
               in (fst r, ViaWebMidi st (data1 msg) (data2 msg) # snd r))
         else (False, []))"

definition sendMessages :: "MidiHandler \<Rightarrow> MidiMessage list \<Rightarrow> bool \<Rightarrow> bool \<times> sent list" where
  "sendMessages h messages useGlobalChannel =
     (if webSocket h = Some OPEN
      then (True,
            map (\<lambda>msg. ViaWebSocket (channelStatus useGlobalChannel (channel h) (status msg))
                         (data1 msg) (data2 msg)) messages)
      else (case selectedOutput h of
              None \<Rightarrow> (False, [])
            | Some out \<Rightarrow> sendToOutput out (channel h) useGlobalChannel messages))"

text \<open>
  What happens to a handler: \<open>setChannel\<close> is called, or one of the connection
  callbacks changes the socket or the selected output. Nothing but \<open>setChannel\<close> writes
  the channel.
\<close>

datatype handlerEvent =
    SetChannel int
  | SocketChanged "readyState option"
  | OutputChanged "(int \<times> jsval \<times> jsval \<Rightarrow> bool) option"

fun handlerStep :: "MidiHandler \<Rightarrow> handlerEvent \<Rightarrow> MidiHandler" where
  "handlerStep h (SetChannel c) = setChannel h c"
| "handlerStep h (SocketChanged s) = h\<lparr>webSocket := s\<rparr>"
| "handlerStep h (OutputChanged out) = h\<lparr>selectedOutput := out\<rparr>"

section \<open>The bridge server\<close>

datatype clientType = BROWSER | TRACK_MONITOR

record wsClient =
  ws_readyState :: readyState
  ws_clientType :: clientType

text \<open>
  The server's state: the socket objects (by identity, a number), the set \<open>wsClients\<close>
  in insertion order, whether a MIDI output is open, and what \<open>pong\<close> reports.
\<close>

record server =
  socket :: "nat \<Rightarrow> wsClient"
  wsClients :: "nat list"
  midiOut :: bool
  selectedOutPortName :: jsval
  WS_PORT :: nat

datatype outbound =
    ConnectedMsg jsval bool nat
  | PongMsg jsval nat
  | TrackChangeMsg jsval
  | ArticulationSetChangeMsg jsval

datatype effect =
    Send nat outbound
  | MidiOutSend jsval jsval jsval

definition broadcastTrackName :: "server \<Rightarrow> jsval \<Rightarrow> effect list" where
  "broadcastTrackName srv trackName =
     map (\<lambda>client. Send client (TrackChangeMsg trackName))
       (filter (\<lambda>client. ws_readyState (socket srv client) = OPEN
                        \<and> ws_clientType (socket srv client) = BROWSER)
          (wsClients srv))"

definition broadcastArticulationSetChange :: "server \<Rightarrow> jsval \<Rightarrow> effect list" where
  "broadcastArticulationSetChange srv articulationSetId =
     map (\<lambda>client. Send client (ArticulationSetChangeMsg articulationSetId))
       (filter (\<lambda>client. ws_readyState (socket srv client) = OPEN
                        \<and> ws_clientType (socket srv client) = BROWSER)
          (wsClients srv))"

definition sendMidi :: "server \<Rightarrow> jsval \<Rightarrow> jsval \<Rightarrow> jsval \<Rightarrow> effect list" where
  "sendMidi srv st d1 d2 = (if midiOut srv then [MidiOutSend st d1 d2] else [])"

text \<open>
  The \<open>message\<close> handler of socket \<open>ws\<close>. The payload is \<open>None\<close> when \<open>JSON.parse\<close>
  throws or gives \<open>null\<close> (the handler catches the error and logs it), and otherwise the
  properties of the value parsed.
\<close>

definition onMessage :: "server \<Rightarrow> nat \<Rightarrow> (string \<times> jsval) list option \<Rightarrow> server \<times> effect list" where
  "onMessage srv ws payload =
     (case payload of
        None \<Rightarrow> (srv, [])
      | Some props \<Rightarrow>
          (let msgType = ownProp props ''type''
           in if msgType = JStr ''midi''
              then (srv, sendMidi srv (ownProp props ''status'') (ownProp props ''data1'')
                           (ownProp props ''data2''))
              else if msgType = JStr ''ping''
              then (srv, [Send ws (PongMsg (selectedOutPortName srv) (WS_PORT srv))])
              else if msgType = JStr ''identify''
              then (if ownProp props ''clientType'' = JStr ''track-monitor''
                    then srv\<lparr>socket := (socket srv)
                               (ws := (socket srv ws)\<lparr>ws_clientType := TRACK_MONITOR\<rparr>)\<rparr>
                    else srv, [])
              else if msgType = JStr ''trackChange''
              then (srv, broadcastTrackName srv (ownProp props ''trackName''))
              else (srv, [])))"

text \<open>The \<open>connection\<close> and \<open>close\<close> handlers.\<close>

definition onConnection :: "server \<Rightarrow> nat \<Rightarrow> server \<times> effect list" where
  "onConnection srv ws =
     (srv\<lparr>socket := (socket srv)(ws := (socket srv ws)\<lparr>ws_clientType := BROWSER\<rparr>),
          wsClients := (if ws \<in> set (wsClients srv) then wsClients srv
                        else wsClients srv @ [ws])\<rparr>,
      [Send ws (ConnectedMsg (selectedOutPortName srv) (midiOut srv) (WS_PORT srv))])"

definition onClose :: "server \<Rightarrow> nat \<Rightarrow> server \<times> effect list" where
  "onClose srv ws = (srv\<lparr>wsClients := removeAll ws (wsClients srv)\<rparr>, [])"

text \<open>What the WebSocket server hands to the handlers, and the step the server takes.\<close>

datatype event =
    Connection nat
  | Message nat "(string \<times> jsval) list option"
  | Close nat

fun serverStep :: "server \<Rightarrow> event \<Rightarrow> server \<times> effect list" where
  "serverStep srv (Connection ws) = onConnection srv ws"
| "serverStep srv (Message ws payload) = onMessage srv ws payload"
| "serverStep srv (Close ws) = onClose srv ws"

section \<open>Example inputs\<close>

text \<open>What a parse gave, as a list: its articulations, none when it threw.\<close>

definition parsedArticulations :: "error + ArticulationSet \<Rightarrow> Articulation list" where
  "parsedArticulations r = (case r of Inr s \<Rightarrow> articulations s | Inl e \<Rightarrow> [])"

text \<open>A document in the standard format: one articulation \<open>{Output: {Note: 60}}\<close>.\<close>

definition noteOnly_doc :: element where
  "noteOnly_doc =
     plist [dict
       [key ''Articulations'',
        array [dict [key ''Output'', dict [key ''Note'', integer ''60'']]]]]"

text \<open>A document with one articulation \<open>{Output: {MB1: 60}}\<close> and no switches.\<close>

definition mb1Only_doc :: element where
  "mb1Only_doc =
     plist [dict
       [key ''Articulations'',
        array [dict [key ''Output'', dict [key ''MB1'', integer ''60'']]]]]"

text \<open>
  A document with one articulation whose output dictionary has the one key \<open>__proto__\<close>,
  with the dictionary \<open>{MB1: 60}\<close>.
\<close>

definition inheritedMb1_doc :: element where
  "inheritedMb1_doc =
     plist [dict
       [key ''Articulations'',
        array [dict [key ''Output'',
                     dict [key ''__proto__'', dict [key ''MB1'', integer ''60'']]]]]]"

text \<open>An articulation as \<open>createSimpleArticulationSet\<close> shapes it, with a given trigger.\<close>

definition simpleArticulation :: "string \<Rightarrow> RemoteTrigger option \<Rightarrow> Articulation" where
  "simpleArticulation n rt =
     \<lparr>art_id = n, name = JStr n, shortName = JStr (toUpperCase (take 4 n)),
      description = JStr n, color = numOfNat 0, group = numOfNat 0, midiMessages = [],
      remoteTrigger = rt, keySwitch = JUndefined, articulationType = 0,
      midiChannel = None, sourceMap = None\<rparr>"

definition manualTrigger :: "nat \<Rightarrow> RemoteTrigger" where
  "manualTrigger k = \<lparr>rt_status = 144, rt_data1 = numOfInt (int k), isAutoAssigned = Some False\<rparr>"

definition customSet :: "Articulation list \<Rightarrow> ArticulationSet" where
  "customSet arts =
     \<lparr>set_name = ''Custom'', fileName = ''custom'', articulations = arts,
      isMerged = None, sourceMapNames = None\<rparr>"

text \<open>
  A set that uses every note 0 to 127 for a hand-made trigger and has one more
  articulation with no trigger; and a set of two articulations with no trigger.
\<close>

definition fullKeyboardSet :: ArticulationSet where
  "fullKeyboardSet =
     customSet (map (\<lambda>k. simpleArticulation (showNat k) (Some (manualTrigger k))) [0..<128]
                @ [simpleArticulation ''Extra'' None])"

definition twoUnassignedSet :: ArticulationSet where
  "twoUnassignedSet =
     customSet [simpleArticulation ''Legato'' None, simpleArticulation ''Staccato'' None]"

text \<open>A set with one hand-made trigger, on note 0, and one articulation with none.\<close>

definition mixedSet :: ArticulationSet where
  "mixedSet =
     customSet [simpleArticulation ''Legato'' (Some (manualTrigger 0)),
                simpleArticulation ''Staccato'' None]"

text \<open>A library directory and two of its files.\<close>

definition libraryDir :: string where
  "libraryDir = ''/Users/me/Music/Audio Music Apps/Articulation Settings/Art Conductor Logic''"

definition stradivariFile :: string where
  "stradivariFile = libraryDir @ ''/Strings/Stradivari Violin.plist''"

definition violinSoloFile :: string where
  "violinSoloFile = libraryDir @ ''/Strings/Violin 1 Solo.plist''"

text \<open>A server with one detector (socket 0) and two browsers, one of them closed.\<close>

definition exampleServer :: server where
  "exampleServer =
     \<lparr>socket = (\<lambda>ws. if ws = 0 then \<lparr>ws_readyState = OPEN, ws_clientType = TRACK_MONITOR\<rparr>
                      else if ws = 1 then \<lparr>ws_readyState = OPEN, ws_clientType = BROWSER\<rparr>
                      else \<lparr>ws_readyState = CLOSED, ws_clientType = BROWSER\<rparr>),
      wsClients = [0, 1, 2],
      midiOut = True,
      selectedOutPortName = JStr ''IAC Driver Bus 1'',
      WS_PORT = 3001\<rparr>"

text \<open>
  Entries of an articulations array, as the property-list reader gives them: an output
  with \<open>MB1\<close> 60, one with \<open>Note\<close> 60, one with \<open>MB1\<close> -1, and one whose dictionary
  has the key \<open>__proto__\<close> with a dictionary that holds \<open>MB1\<close> 60.
\<close>

definition mb1Entry :: jsval where
  "mb1Entry = JObj [(''Output'', JObj [(''MB1'', JNum (Finite 60))])]"

definition noteEntry :: jsval where
  "noteEntry = JObj [(''Output'', JObj [(''Note'', JNum (Finite 60))])]"

definition negativeEntry :: jsval where
  "negativeEntry = JObj [(''Output'', JObj [(''MB1'', JNum (Finite (- 1)))])]"

definition inheritedEntry :: jsval where
  "inheritedEntry =
     JObj [(''Output'', JObj [(''__proto__'', JObj [(''MB1'', JNum (Finite 60))])])]"

text \<open>A Note On and a SysEx start, and a \<open>trackChange\<close> message.\<close>

definition noteOn60 :: MidiMessage where
  "noteOn60 = \<lparr>status = 0x90, data1 = numOfNat 60, data2 = numOfNat 100\<rparr>"

definition sysExStart :: MidiMessage where
  "sysExStart = \<lparr>status = 0xF0, data1 = numOfNat 60, data2 = numOfNat 100\<rparr>"

definition trackChangeFrom :: "string \<Rightarrow> (string \<times> jsval) list" where
  "trackChangeFrom n = [(''type'', JStr ''trackChange''), (''trackName'', JStr n)]"

section \<open>Unfolding the definitions\<close>

lemmas string_defs =
  toLowerChar_def toUpperChar_def toLowerCase_def toUpperCase_def endsWith_def
  stripPlistSuffix_def isUpperAZ_def isSpace_def isDigit_def stripVendorTag_def
  lastSegment_def

lemmas value_defs =
  lor_def nullish_def ge0_def le127_def sameValueZero_def mapGet_def assignProp_def

lemmas parser_defs =
  outputSettingsOf_def artIdOf_def statusOf_def numOfNat_def outputMessages_def remoteTriggerOf_def parseArticulation_def
  parseLogicArticulationSet_def parsePlistDict_def

lemmas example_defs =
  digitsValue_def parseInt10_def key_def integer_def str_def dict_def array_def plist_def

section \<open>The Format B example\<close>

text \<open>
  C1. Parsing the Format B document with one switch \<open>{ID: 1, MB1: 62, Status: "Note On"}\<close>
  and one articulation \<open>{ID: 1, Output: {MB1: 60, Status: "Note On"}}\<close> gives a set with
  one articulation; its output messages contain \<open>{0x90, 60, 127}\<close> and its remote trigger
  is \<open>{0x90, 62, isAutoAssigned: false}\<close>. This holds for every file name and on every
  runtime whose \<open>parseInt\<close> reads decimal numerals.
\<close>

theorem formatB_parse:
  "\<exists>s a. parseLogicArticulationSet (js\<lparr>parseInt := parseInt10\<rparr>) formatB_doc file = Inr s
      \<and> articulations s = [a]
      \<and> \<lparr>status = 144, data1 = JNum (Finite 60), data2 = JNum (Finite 127)\<rparr>
          \<in> set (midiMessages a)
      \<and> remoteTrigger a =
          Some \<lparr>rt_status = 144, rt_data1 = JNum (Finite 62), isAutoAssigned = Some False\<rparr>"
  by (simp add: formatB_doc_def parser_defs value_defs example_defs string_defs Let_def)

section \<open>Auto-assignment: what a pass returns\<close>

lemma assignAll_all_assigned:
  "assignAll arts (u, n) = Inr as \<Longrightarrow> list_all (\<lambda>a. remoteTrigger a \<noteq> None) as"
proof (induction arts arbitrary: u n as)
  case Nil
  then show ?case by simp
next
  case (Cons art arts)
  then show ?case
    by (auto split: option.splits sum.splits prod.splits)
qed

lemma assignAll_nothing_to_do:
  "list_all (\<lambda>a. remoteTrigger a \<noteq> None) arts \<Longrightarrow> assignAll arts (u, n) = Inr arts"
  by (induction arts arbitrary: u n) (auto split: option.splits)

lemma assignAll_length:
  "assignAll arts (u, n) = Inr as \<Longrightarrow> length as = length arts"
proof (induction arts arbitrary: u n as)
  case Nil
  then show ?case by simp
next
  case (Cons art arts)
  then show ?case
    by (auto split: option.splits sum.splits prod.splits)
qed

lemma assignAll_keeps_assigned:
  "assignAll arts (u, n) = Inr as \<Longrightarrow> i < length arts \<Longrightarrow> remoteTrigger (arts ! i) \<noteq> None
     \<Longrightarrow> as ! i = arts ! i"
proof (induction arts arbitrary: u n as i)
  case Nil
  then show ?case by simp
next
  case (Cons art arts)
  show ?case
  proof (cases i)
    case 0
    with Cons.prems show ?thesis
      by (auto split: option.splits sum.splits prod.splits)
  next
    case (Suc j)
    with Cons.prems Cons.IH show ?thesis
      by (auto split: option.splits sum.splits prod.splits)
  qed
qed

lemma assignAll_only_adds_trigger:
  "assignAll arts (u, n) = Inr as \<Longrightarrow> i < length arts
     \<Longrightarrow> \<exists>rt. as ! i = (arts ! i)\<lparr>remoteTrigger := rt\<rparr>"
proof (induction arts arbitrary: u n as i)
  case Nil
  then show ?case by simp
next
  case (Cons art arts)
  show ?case
  proof (cases i)
    case 0
    with Cons.prems show ?thesis
      by (auto split: option.splits sum.splits prod.splits intro: exI [of _ "remoteTrigger art"])
  next
    case (Suc j)
    with Cons.prems Cons.IH show ?thesis
      by (auto split: option.splits sum.splits prod.splits)
  qed
qed

lemma assignAll_error: "assignAll arts (u, n) = Inl e \<Longrightarrow> e = NoMoreNotes"
proof (induction arts arbitrary: u n)
  case Nil
  then show ?case by simp
next
  case (Cons art arts)
  then show ?case
    by (auto simp: getNextAvailableNote_def Let_def split: option.splits sum.splits prod.splits if_splits)
qed

lemma numOfInt_inject: "numOfInt a = numOfInt b \<longleftrightarrow> a = b"
  by (simp add: numOfInt_def)

lemma skipUsed_ge: "n \<le> skipUsed u n"
proof (induction u n rule: skipUsed.induct)
  case (1 u n)
  show ?case
  proof (cases "numOfInt n \<in> u \<and> n \<le> 127")
    case True
    with "1" have "n + 1 \<le> skipUsed u (n + 1)" by simp
    moreover from True have "skipUsed u n = skipUsed u (n + 1)"
      by (subst skipUsed.simps) simp
    ultimately show ?thesis by simp
  next
    case False
    then show ?thesis by (subst skipUsed.simps) auto
  qed
qed

lemma skipUsed_skipped: "n \<le> k \<Longrightarrow> k < skipUsed u n \<Longrightarrow> numOfInt k \<in> u \<and> k \<le> 127"
proof (induction u n rule: skipUsed.induct)
  case (1 u n)
  show ?case
  proof (cases "numOfInt n \<in> u \<and> n \<le> 127")
    case True
    then have eq: "skipUsed u n = skipUsed u (n + 1)"
      by (subst skipUsed.simps) simp
    show ?thesis
    proof (cases "k = n")
      case True
      with \<open>numOfInt n \<in> u \<and> n \<le> 127\<close> show ?thesis by simp
    next
      case False
      with "1.prems" have "n + 1 \<le> k" by simp
      moreover from "1.prems" eq have "k < skipUsed u (n + 1)" by simp
      ultimately show ?thesis using "1.IH" True by blast
    qed
  next
    case False
    then have "skipUsed u n = n" by (subst skipUsed.simps) auto
    with "1.prems" show ?thesis by simp
  qed
qed

lemma skipUsed_stops: "skipUsed u n \<le> 127 \<Longrightarrow> numOfInt (skipUsed u n) \<notin> u"
proof (induction u n rule: skipUsed.induct)
  case (1 u n)
  show ?case
  proof (cases "numOfInt n \<in> u \<and> n \<le> 127")
    case True
    then have eq: "skipUsed u n = skipUsed u (n + 1)"
      by (subst skipUsed.simps) simp
    with "1.IH" True "1.prems" show ?thesis by simp
  next
    case False
    then have eq: "skipUsed u n = n" by (subst skipUsed.simps) auto
    with False "1.prems" show ?thesis by auto
  qed
qed

lemma finite_freeNotes: "finite (freeNotes u n)"
proof -
  have "freeNotes u n \<subseteq> {n..127}" by (auto simp: freeNotes_def)
  then show ?thesis by (rule finite_subset) simp
qed

lemma freeNotes_exhausted: "127 < skipUsed u n \<Longrightarrow> freeNotes u n = {}"
proof -
  assume a: "127 < skipUsed u n"
  { fix k assume "n \<le> k" "k \<le> 127"
    with a have "k < skipUsed u n" by simp
    with \<open>n \<le> k\<close> have "numOfInt k \<in> u" using skipUsed_skipped by blast }
  then show ?thesis by (auto simp: freeNotes_def)
qed

lemma freeNotes_step:
  assumes "skipUsed u n \<le> 127"
  shows "freeNotes u n =
           insert (skipUsed u n) (freeNotes (insert (numOfInt (skipUsed u n)) u) (skipUsed u n + 1))"
    and "skipUsed u n \<notin> freeNotes (insert (numOfInt (skipUsed u n)) u) (skipUsed u n + 1)"
proof -
  let ?m = "skipUsed u n"
  have ge: "n \<le> ?m" by (rule skipUsed_ge)
  have free: "numOfInt ?m \<notin> u" using assms by (rule skipUsed_stops)
  show "freeNotes u n = insert ?m (freeNotes (insert (numOfInt ?m) u) (?m + 1))"
  proof (rule set_eqI)
    fix k
    show "k \<in> freeNotes u n \<longleftrightarrow> k \<in> insert ?m (freeNotes (insert (numOfInt ?m) u) (?m + 1))"
    proof
      assume "k \<in> freeNotes u n"
      then have k: "n \<le> k" "k \<le> 127" "numOfInt k \<notin> u" by (auto simp: freeNotes_def)
      have "\<not> k < ?m" using k skipUsed_skipped by blast
      with k show "k \<in> insert ?m (freeNotes (insert (numOfInt ?m) u) (?m + 1))"
        by (auto simp: freeNotes_def numOfInt_inject)
    next
      assume "k \<in> insert ?m (freeNotes (insert (numOfInt ?m) u) (?m + 1))"
      with ge free assms show "k \<in> freeNotes u n"
        by (auto simp: freeNotes_def)
    qed
  qed
  show "?m \<notin> freeNotes (insert (numOfInt ?m) u) (?m + 1)"
    by (simp add: freeNotes_def)
qed

lemma assignAll_exhausted_iff:
  "assignAll arts (u, n) = Inl NoMoreNotes \<longleftrightarrow> card (freeNotes u n) < needingNote arts"
proof (induction arts arbitrary: u n)
  case Nil
  then show ?case by (simp add: needingNote_def)
next
  case (Cons art arts)
  show ?case
  proof (cases "remoteTrigger art")
    case (Some rt)
    have "assignAll (art # arts) (u, n) = Inl NoMoreNotes \<longleftrightarrow> assignAll arts (u, n) = Inl NoMoreNotes"
      using Some by (auto split: sum.splits)
    moreover have "needingNote (art # arts) = needingNote arts"
      using Some by (simp add: needingNote_def)
    ultimately show ?thesis using Cons.IH by simp
  next
    case None
    let ?m = "skipUsed u n"
    have need: "needingNote (art # arts) = Suc (needingNote arts)"
      using None by (simp add: needingNote_def)
    show ?thesis
    proof (cases "127 < ?m")
      case True
      then have "assignAll (art # arts) (u, n) = Inl NoMoreNotes"
        using None by (simp add: getNextAvailableNote_def)
      moreover have "card (freeNotes u n) = 0"
        using True by (simp add: freeNotes_exhausted)
      ultimately show ?thesis using need by simp
    next
      case False
      then have le: "?m \<le> 127" by simp
      let ?u' = "insert (numOfInt ?m) u"
      have "assignAll (art # arts) (u, n) = Inl NoMoreNotes
              \<longleftrightarrow> assignAll arts (?u', ?m + 1) = Inl NoMoreNotes"
        using None False by (auto simp: getNextAvailableNote_def Let_def split: sum.splits)
      moreover have "card (freeNotes u n) = Suc (card (freeNotes ?u' (?m + 1)))"
        using freeNotes_step [OF le] finite_freeNotes [of ?u' "?m + 1"] by simp
      ultimately show ?thesis using Cons.IH [of ?u' "?m + 1"] need by simp
    qed
  qed
qed

lemma autoAssign_Inr:
  "autoAssignRemoteTriggers artSet startNote = Inr result \<longleftrightarrow>
     (\<exists>as. assignAll (articulations artSet) (initialUsedNotes (articulations artSet), startNote) = Inr as
        \<and> result = artSet\<lparr>articulations := as\<rparr>)"
  by (auto simp: autoAssignRemoteTriggers_def split: sum.splits)

lemma hasUnassignedRemotes_iff:
  "hasUnassignedRemotes artSet \<longleftrightarrow> \<not> list_all (\<lambda>a. remoteTrigger a \<noteq> None) (articulations artSet)"
  by (auto simp: hasUnassignedRemotes_def list_ex_iff list_all_iff)

lemma needingNote_zero_iff:
  "needingNote arts = 0 \<longleftrightarrow> list_all (\<lambda>a. remoteTrigger a \<noteq> None) arts"
  by (auto simp: needingNote_def list_all_iff filter_empty_conv)

text \<open>
  C9. When auto-assignment returns a set, every articulation of that set carries a remote
  trigger: \<open>hasUnassignedRemotes\<close> is false on it, no articulation needs a note, and a
  later pass from any start note returns the set as it is.
\<close>

theorem autoAssign_postcondition:
  assumes "autoAssignRemoteTriggers artSet startNote = Inr result"
  shows "list_all (\<lambda>art. remoteTrigger art \<noteq> None) (articulations result)
       \<and> hasUnassignedRemotes result = False
       \<and> needingNote (articulations result) = 0
       \<and> autoAssignRemoteTriggers result laterStart = Inr result"
proof -
  from assms obtain as where
    as: "assignAll (articulations artSet) (initialUsedNotes (articulations artSet), startNote) = Inr as"
    and result: "result = artSet\<lparr>articulations := as\<rparr>"
    by (auto simp: autoAssign_Inr)
  have all: "list_all (\<lambda>art. remoteTrigger art \<noteq> None) (articulations result)"
    using assignAll_all_assigned [OF as] result by simp
  then have "assignAll (articulations result) (initialUsedNotes (articulations result), laterStart)
               = Inr (articulations result)"
    by (rule assignAll_nothing_to_do)
  then have "autoAssignRemoteTriggers result laterStart = Inr result"
    by (simp add: autoAssignRemoteTriggers_def)
  with all show ?thesis
    by (simp add: hasUnassignedRemotes_iff needingNote_zero_iff)
qed

lemmas autoAssign_defs =
  autoAssignRemoteTriggers_def getNextAvailableNote_def numOfInt_def numOfNat_def
  simpleArticulation_def manualTrigger_def customSet_def

lemma twoUnassigned_result:
  "autoAssignRemoteTriggers twoUnassignedSet 0 =
     Inr (customSet
       [simpleArticulation ''Legato''
          (Some \<lparr>rt_status = 144, rt_data1 = numOfInt 0, isAutoAssigned = Some True\<rparr>),
        simpleArticulation ''Staccato''
          (Some \<lparr>rt_status = 144, rt_data1 = numOfInt 1, isAutoAssigned = Some True\<rparr>)])"
  by (simp add: twoUnassignedSet_def autoAssign_defs skipUsed.simps)

theorem autoAssign_postcondition_witness:
  "hasUnassignedRemotes twoUnassignedSet
   \<and> (\<exists>result. autoAssignRemoteTriggers twoUnassignedSet 0 = Inr result
        \<and> list_all (\<lambda>art. remoteTrigger art \<noteq> None) (articulations result)
        \<and> hasUnassignedRemotes result = False
        \<and> needingNote (articulations result) = 0
        \<and> autoAssignRemoteTriggers result 0 = Inr result)"
proof -
  have "hasUnassignedRemotes twoUnassignedSet"
    by (simp add: hasUnassignedRemotes_def twoUnassignedSet_def customSet_def simpleArticulation_def)
  then show ?thesis
    using autoAssign_postcondition [OF twoUnassigned_result, of 0] twoUnassigned_result
    by blast
qed

text \<open>
  C2. When a first application returns a set, a second application with the same start
  note returns that same set: no note is reassigned and the count of auto-assigned
  triggers is the same. An application changes nothing but remote triggers, and leaves
  every articulation that already had one (auto-assigned or not) as it was.
\<close>

theorem autoAssign_idempotent:
  assumes "autoAssignRemoteTriggers artSet startNote = Inr result"
  shows "autoAssignRemoteTriggers result startNote = Inr result
       \<and> map_sum id countAutoAssignedRemotes (autoAssignRemoteTriggers result startNote)
           = Inr (countAutoAssignedRemotes result)
       \<and> length (articulations result) = length (articulations artSet)
       \<and> (\<forall>i < length (articulations artSet).
            (remoteTrigger (articulations artSet ! i) \<noteq> None
               \<longrightarrow> articulations result ! i = articulations artSet ! i)
            \<and> (\<exists>rt. articulations result ! i = (articulations artSet ! i)\<lparr>remoteTrigger := rt\<rparr>))"
proof -
  from assms obtain as where
    as: "assignAll (articulations artSet) (initialUsedNotes (articulations artSet), startNote) = Inr as"
    and result: "result = artSet\<lparr>articulations := as\<rparr>"
    by (auto simp: autoAssign_Inr)
  have "list_all (\<lambda>art. remoteTrigger art \<noteq> None) (articulations result)"
    using assignAll_all_assigned [OF as] result by simp
  then have "assignAll (articulations result) (initialUsedNotes (articulations result), startNote)
               = Inr (articulations result)"
    by (rule assignAll_nothing_to_do)
  then have again: "autoAssignRemoteTriggers result startNote = Inr result"
    by (simp add: autoAssignRemoteTriggers_def)
  have len: "length (articulations result) = length (articulations artSet)"
    using assignAll_length [OF as] result by simp
  have kept: "\<forall>i < length (articulations artSet).
            (remoteTrigger (articulations artSet ! i) \<noteq> None
               \<longrightarrow> articulations result ! i = articulations artSet ! i)
            \<and> (\<exists>rt. articulations result ! i = (articulations artSet ! i)\<lparr>remoteTrigger := rt\<rparr>)"
    using assignAll_keeps_assigned [OF as] assignAll_only_adds_trigger [OF as] result by simp
  from again len kept show ?thesis by simp
qed

lemma mixed_result:
  "autoAssignRemoteTriggers mixedSet 0 =
     Inr (customSet
       [simpleArticulation ''Legato'' (Some (manualTrigger 0)),
        simpleArticulation ''Staccato''
          (Some \<lparr>rt_status = 144, rt_data1 = numOfInt 1, isAutoAssigned = Some True\<rparr>)])"
  by (simp add: mixedSet_def autoAssign_defs skipUsed.simps)

theorem autoAssign_idempotent_witness:
  "(\<exists>result. autoAssignRemoteTriggers mixedSet 0 = Inr result
      \<and> autoAssignRemoteTriggers result 0 = Inr result
      \<and> countAutoAssignedRemotes result = 1
      \<and> articulations result ! 0 = articulations mixedSet ! 0
      \<and> remoteTrigger (articulations mixedSet ! 0) = Some (manualTrigger 0))"
proof -
  let ?r = "customSet
       [simpleArticulation ''Legato'' (Some (manualTrigger 0)),
        simpleArticulation ''Staccato''
          (Some \<lparr>rt_status = 144, rt_data1 = numOfInt 1, isAutoAssigned = Some True\<rparr>)]"
  have "autoAssignRemoteTriggers ?r 0 = Inr ?r"
    using autoAssign_idempotent [OF mixed_result] by blast
  moreover have "countAutoAssignedRemotes ?r = 1"
    by (simp add: countAutoAssignedRemotes_def customSet_def simpleArticulation_def manualTrigger_def)
  moreover have "articulations ?r ! 0 = articulations mixedSet ! 0"
    by (simp add: mixedSet_def customSet_def)
  moreover have "remoteTrigger (articulations mixedSet ! 0) = Some (manualTrigger 0)"
    by (simp add: mixedSet_def customSet_def simpleArticulation_def)
  ultimately show ?thesis using mixed_result by blast
qed

lemma initialUsedNotes_append:
  "initialUsedNotes (xs @ ys) = initialUsedNotes xs \<union> initialUsedNotes ys"
  by (induction xs) (auto split: option.splits)

lemma initialUsedNotes_manual:
  "initialUsedNotes (map (\<lambda>k. simpleArticulation (f k) (Some (manualTrigger k))) ks)
     = (\<lambda>k. numOfInt (int k)) ` set ks"
  by (induction ks) (auto simp: simpleArticulation_def manualTrigger_def)

lemma needingNote_append: "needingNote (xs @ ys) = needingNote xs + needingNote ys"
  by (simp add: needingNote_def)

lemma needingNote_manual:
  "needingNote (map (\<lambda>k. simpleArticulation (f k) (Some (manualTrigger k))) ks) = 0"
  by (induction ks) (auto simp: needingNote_def simpleArticulation_def)

lemma fullKeyboard_used:
  "freeNotes (initialUsedNotes (articulations fullKeyboardSet)) 0 = {}"
proof -
  { fix k :: int assume k: "0 \<le> k" "k \<le> 127"
    then have "nat k \<in> set [0..<128]" by simp
    then have "numOfInt (int (nat k)) \<in> (\<lambda>k. numOfInt (int k)) ` set [0..<128]" by (rule imageI)
    with k have "numOfInt k \<in> (\<lambda>k. numOfInt (int k)) ` set [0..<128]" by simp }
  then show ?thesis
    by (auto simp: freeNotes_def fullKeyboardSet_def customSet_def initialUsedNotes_append
          initialUsedNotes_manual simp del: upt_Suc set_upt)
qed

lemma fullKeyboard_needing: "needingNote (articulations fullKeyboardSet) = 1"
  by (simp add: fullKeyboardSet_def customSet_def needingNote_append needingNote_manual del: upt_Suc)
    (simp add: needingNote_def simpleArticulation_def)

lemma readCell_append: "a < length \<sigma> \<Longrightarrow> readCell (\<sigma> @ ext) a = readCell \<sigma> a"
  by (simp add: readCell_def nth_append)

lemma readCell_Some_lt: "readCell \<sigma> a = Some c \<Longrightarrow> a < length \<sigma>"
  by (simp add: readCell_def split: if_splits)

lemma readCell_new: "readCell (\<sigma> @ [c]) (length \<sigma>) = Some c"
  by (simp add: readCell_def)

lemma readArticulations_append:
  "readArticulations \<sigma> rs = Some arts \<Longrightarrow> readArticulations (\<sigma> @ ext) rs = Some arts"
proof (induction rs arbitrary: arts)
  case Nil
  then show ?case by simp
next
  case (Cons r rs)
  from Cons.prems obtain art arts' where
    r: "readCell \<sigma> r = Some (ArticulationObj art)"
    and rs: "readArticulations \<sigma> rs = Some arts'"
    and arts: "arts = art # arts'"
    by (auto split: option.splits cell.splits)
  have "readCell (\<sigma> @ ext) r = Some (ArticulationObj art)"
    using r readCell_Some_lt [OF r] by (simp add: readCell_append)
  with Cons.IH [OF rs] arts show ?case by simp
qed

lemma mapOnStore_extends:
  "\<exists>ext. fst (mapOnStore \<sigma> rs st) = \<sigma> @ ext"
proof (induction rs arbitrary: \<sigma> st)
  case Nil
  then show ?case by simp
next
  case (Cons r rs)
  show ?case
  proof (cases "readCell \<sigma> r")
    case None
    then show ?thesis by simp
  next
    case (Some c)
    show ?thesis
    proof (cases c)
      case (ArticulationObj art)
      show ?thesis
      proof (cases "remoteTrigger art")
        case None
        show ?thesis
        proof (cases "getNextAvailableNote st")
          case (Inl e)
          with Some ArticulationObj None show ?thesis by simp
        next
          case (Inr p)
          obtain nt st' where p: "p = (nt, st')" by (cases p)
          let ?c = "ArticulationObj (art\<lparr>remoteTrigger :=
                      Some \<lparr>rt_status = 144, rt_data1 = numOfInt nt, isAutoAssigned = Some True\<rparr>\<rparr>)"
          from Cons.IH [of "\<sigma> @ [?c]" st'] obtain ext where
            "fst (mapOnStore (\<sigma> @ [?c]) rs st') = \<sigma> @ [?c] @ ext" by auto
          with Some ArticulationObj None Inr p show ?thesis
            by (auto simp: alloc_def split: prod.splits sum.splits)
        qed
      next
        case (Some rt)
        from Cons.IH [of \<sigma> st] obtain ext where "fst (mapOnStore \<sigma> rs st) = \<sigma> @ ext" by auto
        with \<open>readCell \<sigma> r = Some c\<close> ArticulationObj Some show ?thesis
          by (auto split: prod.splits sum.splits)
      qed
    qed (use Some in simp_all)
  qed
qed

lemma mapOnStore_refines:
  assumes "readArticulations \<sigma> rs = Some arts"
  shows "case assignAll arts st of
           Inl e \<Rightarrow> snd (mapOnStore \<sigma> rs st) = Inl e
         | Inr as \<Rightarrow> \<exists>rs'. snd (mapOnStore \<sigma> rs st) = Inr rs'
                        \<and> readArticulations (fst (mapOnStore \<sigma> rs st)) rs' = Some as"
  using assms
proof (induction rs arbitrary: \<sigma> st arts)
  case Nil
  then show ?case by simp
next
  case (Cons r rs)
  from Cons.prems obtain art arts' where
    r: "readCell \<sigma> r = Some (ArticulationObj art)"
    and rs: "readArticulations \<sigma> rs = Some arts'"
    and arts: "arts = art # arts'"
    by (auto split: option.splits cell.splits)
  obtain u n where st: "st = (u, n)" by (cases st)
  show ?case
  proof (cases "remoteTrigger art")
    case (Some rt)
    obtain ext where ext: "fst (mapOnStore \<sigma> rs st) = \<sigma> @ ext"
      using mapOnStore_extends by blast
    have r': "readCell (fst (mapOnStore \<sigma> rs st)) r = Some (ArticulationObj art)"
      using r ext by (simp add: readCell_append readCell_Some_lt)
    from Cons.IH [OF rs, of st] r r' Some arts show ?thesis
      by (auto split: sum.splits prod.splits)
  next
    case None
    show ?thesis
    proof (cases "getNextAvailableNote st")
      case (Inl e)
      with r None arts show ?thesis by simp
    next
      case (Inr p)
      obtain nt st' where p: "p = (nt, st')" by (cases p)
      let ?art' = "art\<lparr>remoteTrigger :=
                      Some \<lparr>rt_status = 144, rt_data1 = numOfInt nt, isAutoAssigned = Some True\<rparr>\<rparr>"
      let ?\<sigma>1 = "\<sigma> @ [ArticulationObj ?art']"
      have rs1: "readArticulations ?\<sigma>1 rs = Some arts'"
        using rs by (rule readArticulations_append)
      obtain ext where ext: "fst (mapOnStore ?\<sigma>1 rs st') = ?\<sigma>1 @ ext"
        using mapOnStore_extends by blast
      have new: "readCell (fst (mapOnStore ?\<sigma>1 rs st')) (length \<sigma>) = Some (ArticulationObj ?art')"
        using ext readCell_append [of "length \<sigma>" ?\<sigma>1 ext] by (simp add: readCell_new)
      from Cons.IH [OF rs1, of st'] r None arts Inr p new show ?thesis
        by (auto simp: alloc_def split: sum.splits prod.splits)
    qed
  qed
qed

lemma readSet_append:
  assumes "readSet \<sigma> r = Some s"
  shows "readSet (\<sigma> @ ext) r = Some s"
proof -
  from assms obtain n f arr im sm refs arts where
    c: "readCell \<sigma> r = Some (SetObj n f arr im sm)"
    and a: "readCell \<sigma> arr = Some (ArrayObj refs)"
    and l: "readArticulations \<sigma> refs = Some arts"
    and s: "s = \<lparr>set_name = n, fileName = f, articulations = arts, isMerged = im,
                 sourceMapNames = sm\<rparr>"
    by (auto simp: readSet_def split: option.splits cell.splits)
  have "readCell (\<sigma> @ ext) r = Some (SetObj n f arr im sm)"
    using c readCell_Some_lt [OF c] by (simp add: readCell_append)
  moreover have "readCell (\<sigma> @ ext) arr = Some (ArrayObj refs)"
    using a readCell_Some_lt [OF a] by (simp add: readCell_append)
  moreover have "readArticulations (\<sigma> @ ext) refs = Some arts"
    using l by (rule readArticulations_append)
  ultimately show ?thesis using s by (simp add: readSet_def)
qed

lemma autoAssignOnStore_extends: "\<exists>ext. fst (autoAssignOnStore \<sigma> r n) = \<sigma> @ ext"
proof -
  have "\<exists>ext. fst (case mapOnStore \<sigma> refs st of
                     (\<sigma>1, Inl e) \<Rightarrow> (\<sigma>1, Inl e)
                   | (\<sigma>1, Inr updatedArticulations) \<Rightarrow>
                       (case alloc \<sigma>1 (ArrayObj updatedArticulations) of
                          (\<sigma>2, arr') \<Rightarrow>
                            (case alloc \<sigma>2 (SetObj nm f arr' im sm) of
                               (\<sigma>3, result) \<Rightarrow> (\<sigma>3, Inr result)))) = \<sigma> @ ext"
    for refs st nm f im sm
  proof -
    obtain ext where "fst (mapOnStore \<sigma> refs st) = \<sigma> @ ext"
      using mapOnStore_extends by blast
    then show ?thesis
      by (cases "mapOnStore \<sigma> refs st") (auto simp: alloc_def split: sum.splits)
  qed
  then show ?thesis
    by (auto simp: autoAssignOnStore_def split: option.splits cell.splits)
qed

lemma autoAssignOnStore_refines:
  assumes "readSet \<sigma> r = Some artSet"
  shows "case autoAssignRemoteTriggers artSet n of
           Inl e \<Rightarrow> snd (autoAssignOnStore \<sigma> r n) = Inl e
         | Inr result \<Rightarrow>
             \<exists>r'. snd (autoAssignOnStore \<sigma> r n) = Inr r' \<and> length \<sigma> \<le> r'
                \<and> readSet (fst (autoAssignOnStore \<sigma> r n)) r' = Some result"
proof -
  from assms obtain nm f arr im sm refs arts where
    c: "readCell \<sigma> r = Some (SetObj nm f arr im sm)"
    and a: "readCell \<sigma> arr = Some (ArrayObj refs)"
    and l: "readArticulations \<sigma> refs = Some arts"
    and s: "artSet = \<lparr>set_name = nm, fileName = f, articulations = arts, isMerged = im,
                 sourceMapNames = sm\<rparr>"
    by (auto simp: readSet_def split: option.splits cell.splits)
  let ?st = "(initialUsedNotes arts, n)"
  obtain \<sigma>1 out where m: "mapOnStore \<sigma> refs ?st = (\<sigma>1, out)" by (cases "mapOnStore \<sigma> refs ?st")
  obtain ext where ext: "\<sigma>1 = \<sigma> @ ext" using mapOnStore_extends [of \<sigma> refs ?st] m by auto
  show ?thesis
  proof (cases "assignAll arts ?st")
    case (Inl e)
    with mapOnStore_refines [OF l, of ?st] m have "out = Inl e" by simp
    with Inl c a l s m show ?thesis
      by (simp add: autoAssignOnStore_def autoAssignRemoteTriggers_def)
  next
    case (Inr as)
    with mapOnStore_refines [OF l, of ?st] m obtain rs' where
      out: "out = Inr rs'" and rd: "readArticulations \<sigma>1 rs' = Some as" by auto
    let ?\<sigma>3 = "\<sigma>1 @ [ArrayObj rs', SetObj nm f (length \<sigma>1) im sm]"
    have run: "autoAssignOnStore \<sigma> r n = (?\<sigma>3, Inr (Suc (length \<sigma>1)))"
      using c a l m out by (simp add: autoAssignOnStore_def alloc_def)
    have "readCell ?\<sigma>3 (Suc (length \<sigma>1)) = Some (SetObj nm f (length \<sigma>1) im sm)"
      by (simp add: readCell_def nth_append)
    moreover have "readCell ?\<sigma>3 (length \<sigma>1) = Some (ArrayObj rs')"
      by (simp add: readCell_def nth_append)
    moreover have "readArticulations ?\<sigma>3 rs' = Some as"
      using rd by (rule readArticulations_append)
    ultimately have "readSet ?\<sigma>3 (Suc (length \<sigma>1))
        = Some \<lparr>set_name = nm, fileName = f, articulations = as, isMerged = im, sourceMapNames = sm\<rparr>"
      by (simp add: readSet_def)
    moreover have "length \<sigma> \<le> Suc (length \<sigma>1)" using ext by simp
    ultimately show ?thesis using Inr s run
      by (simp add: autoAssignRemoteTriggers_def)
  qed
qed

lemma readArticulations_refs_append:
  "readArticulations \<sigma> rs1 = Some as1 \<Longrightarrow> readArticulations \<sigma> rs2 = Some as2
     \<Longrightarrow> readArticulations \<sigma> (rs1 @ rs2) = Some (as1 @ as2)"
  by (induction rs1 arbitrary: as1) (auto split: option.splits cell.splits)

lemma readArticulations_initial:
  "readArticulations (map ArticulationObj arts @ ext) [0..<length arts] = Some arts"
proof (induction arts arbitrary: ext rule: rev_induct)
  case Nil
  then show ?case by simp
next
  case (snoc a arts)
  have "readArticulations (map ArticulationObj arts @ ArticulationObj a # ext) [0..<length arts]
          = Some arts"
    using snoc.IH [of "ArticulationObj a # ext"] by simp
  moreover have "readCell (map ArticulationObj arts @ ArticulationObj a # ext) (length arts)
          = Some (ArticulationObj a)"
    by (simp add: readCell_def nth_append)
  then have "readArticulations (map ArticulationObj arts @ ArticulationObj a # ext) [length arts]
          = Some [a]"
    by simp
  ultimately have "readArticulations (map ArticulationObj arts @ ArticulationObj a # ext)
                     ([0..<length arts] @ [length arts]) = Some (arts @ [a])"
    by (rule readArticulations_refs_append)
  then show ?case by simp
qed

lemma readSet_storeOf: "readSet (storeOf s) (refOf s) = Some s"
proof -
  let ?n = "length (articulations s)"
  have "readCell (storeOf s) (refOf s)
          = Some (SetObj (set_name s) (fileName s) ?n (isMerged s) (sourceMapNames s))"
    by (simp add: readCell_def storeOf_def refOf_def nth_append)
  moreover have "readCell (storeOf s) ?n = Some (ArrayObj [0..<?n])"
    by (simp add: readCell_def storeOf_def nth_append)
  moreover have "readArticulations (storeOf s) [0..<?n] = Some (articulations s)"
    unfolding storeOf_def by (rule readArticulations_initial)
  ultimately show ?thesis by (simp add: readSet_def)
qed

text \<open>
  C3 (amended). Auto-assignment from \<open>startNote\<close> throws exactly when the notes from
  \<open>startNote\<close> to 127 that no hand-made remote trigger uses are fewer than the
  articulations without a remote trigger, and the error it throws is the exhaustion
  error. Run on a store that holds the set, it writes to no object that was there:
  whether it throws or returns, the store it leaves extends the store it found, the
  argument still reads as the same set, and what it returns is a new object.
\<close>

theorem autoAssign_exhaustion:
  "(autoAssignRemoteTriggers artSet startNote = Inl NoMoreNotes
      \<longleftrightarrow> card (freeNotes (initialUsedNotes (articulations artSet)) startNote)
            < needingNote (articulations artSet))
   \<and> (\<forall>e. autoAssignRemoteTriggers artSet startNote = Inl e \<longrightarrow> e = NoMoreNotes)
   \<and> (\<forall>\<sigma> r. readSet \<sigma> r = Some artSet \<longrightarrow>
         take (length \<sigma>) (fst (autoAssignOnStore \<sigma> r startNote)) = \<sigma>
         \<and> readSet (fst (autoAssignOnStore \<sigma> r startNote)) r = Some artSet
         \<and> (case autoAssignRemoteTriggers artSet startNote of
               Inl e \<Rightarrow> snd (autoAssignOnStore \<sigma> r startNote) = Inl e
             | Inr result \<Rightarrow>
                 \<exists>r'. snd (autoAssignOnStore \<sigma> r startNote) = Inr r' \<and> length \<sigma> \<le> r'
                    \<and> readSet (fst (autoAssignOnStore \<sigma> r startNote)) r' = Some result))"
proof -
  let ?r = "assignAll (articulations artSet) (initialUsedNotes (articulations artSet), startNote)"
  have "autoAssignRemoteTriggers artSet startNote = Inl e \<longleftrightarrow> ?r = Inl e" for e
    by (auto simp: autoAssignRemoteTriggers_def split: sum.splits)
  then have pure: "(autoAssignRemoteTriggers artSet startNote = Inl NoMoreNotes
      \<longleftrightarrow> card (freeNotes (initialUsedNotes (articulations artSet)) startNote)
            < needingNote (articulations artSet))
   \<and> (\<forall>e. autoAssignRemoteTriggers artSet startNote = Inl e \<longrightarrow> e = NoMoreNotes)"
    using assignAll_exhausted_iff assignAll_error by auto
  have frame: "take (length \<sigma>) (fst (autoAssignOnStore \<sigma> r startNote)) = \<sigma>
         \<and> readSet (fst (autoAssignOnStore \<sigma> r startNote)) r = Some artSet"
    if "readSet \<sigma> r = Some artSet" for \<sigma> r
  proof -
    obtain ext where "fst (autoAssignOnStore \<sigma> r startNote) = \<sigma> @ ext"
      using autoAssignOnStore_extends by blast
    then show ?thesis using readSet_append [OF that] by simp
  qed
  show ?thesis
  proof (intro conjI allI impI)
    show "autoAssignRemoteTriggers artSet startNote = Inl NoMoreNotes
      \<longleftrightarrow> card (freeNotes (initialUsedNotes (articulations artSet)) startNote)
            < needingNote (articulations artSet)"
      using pure by (rule conjunct1)
  next
    fix e assume "autoAssignRemoteTriggers artSet startNote = Inl e"
    with pure show "e = NoMoreNotes" by simp
  next
    fix \<sigma> r assume h: "readSet \<sigma> r = Some artSet"
    show "take (length \<sigma>) (fst (autoAssignOnStore \<sigma> r startNote)) = \<sigma>"
      using frame [OF h] by (rule conjunct1)
    show "readSet (fst (autoAssignOnStore \<sigma> r startNote)) r = Some artSet"
      using frame [OF h] by (rule conjunct2)
    show "case autoAssignRemoteTriggers artSet startNote of
               Inl e \<Rightarrow> snd (autoAssignOnStore \<sigma> r startNote) = Inl e
             | Inr result \<Rightarrow>
                 \<exists>r'. snd (autoAssignOnStore \<sigma> r startNote) = Inr r' \<and> length \<sigma> \<le> r'
                    \<and> readSet (fst (autoAssignOnStore \<sigma> r startNote)) r' = Some result"
      using h by (rule autoAssignOnStore_refines)
  qed
qed

theorem autoAssign_exhaustion_witness:
  "autoAssignRemoteTriggers fullKeyboardSet 0 = Inl NoMoreNotes
   \<and> length (articulations fullKeyboardSet) = 129
   \<and> readSet (storeOf fullKeyboardSet) (refOf fullKeyboardSet) = Some fullKeyboardSet
   \<and> snd (autoAssignOnStore (storeOf fullKeyboardSet) (refOf fullKeyboardSet) 0) = Inl NoMoreNotes
   \<and> readSet (fst (autoAssignOnStore (storeOf fullKeyboardSet) (refOf fullKeyboardSet) 0))
        (refOf fullKeyboardSet) = Some fullKeyboardSet"
proof -
  have e: "autoAssignRemoteTriggers fullKeyboardSet 0 = Inl NoMoreNotes"
    using autoAssign_exhaustion [of fullKeyboardSet 0]
    by (simp add: fullKeyboard_used fullKeyboard_needing)
  have l: "length (articulations fullKeyboardSet) = 129"
    by (simp add: fullKeyboardSet_def customSet_def)
  note onStore = conjunct2 [OF conjunct2 [OF autoAssign_exhaustion [of fullKeyboardSet 0]],
      rule_format, OF readSet_storeOf]
  have "snd (autoAssignOnStore (storeOf fullKeyboardSet) (refOf fullKeyboardSet) 0) = Inl NoMoreNotes
      \<and> readSet (fst (autoAssignOnStore (storeOf fullKeyboardSet) (refOf fullKeyboardSet) 0))
           (refOf fullKeyboardSet) = Some fullKeyboardSet"
    using onStore by (simp add: e)
  with e l readSet_storeOf show ?thesis by simp
qed

theorem autoAssign_exhaustion_counterexample:
  "autoAssignRemoteTriggers twoUnassignedSet 127 = Inl NoMoreNotes
   \<and> initialUsedNotes (articulations twoUnassignedSet) = {}"
  by (simp add: twoUnassignedSet_def autoAssign_defs skipUsed.simps)

section \<open>The fallback remote trigger\<close>

lemma parseArticulations_nth:
  "parseArticulations js sm entries k = Inr as \<Longrightarrow>
     length as = length entries
     \<and> (\<forall>i < length entries. parseArticulation js sm (entries ! i) (k + i) = Inr (as ! i))"
proof (induction entries arbitrary: k as)
  case Nil
  then show ?case by simp
next
  case (Cons artData entries)
  from Cons.prems obtain a as' where
    a: "parseArticulation js sm artData k = Inr a"
    and as': "parseArticulations js sm entries (k + 1) = Inr as'"
    and as: "as = a # as'"
    by (auto split: sum.splits)
  from Cons.IH [OF as'] have len: "length as' = length entries"
    and nth: "\<And>i. i < length entries \<Longrightarrow> parseArticulation js sm (entries ! i) (k + 1 + i) = Inr (as' ! i)"
    by simp_all
  show ?case
  proof (intro conjI allI impI)
    show "length as = length (artData # entries)" using len as by simp
  next
    fix i assume i: "i < length (artData # entries)"
    show "parseArticulation js sm ((artData # entries) ! i) (k + i) = Inr (as ! i)"
    proof (cases i)
      case 0
      with a as show ?thesis by simp
    next
      case (Suc j)
      with i nth [of j] as show ?thesis by simp
    qed
  qed
qed

lemma remoteTriggerOf_parsed:
  "parseArticulation js sm artData i = Inr a \<Longrightarrow>
     remoteTrigger a = remoteTriggerOf js sm artData (getProp (outputSettingsOf artData) ''MB1'')
     \<and> midiMessages a = outputMessages js (outputSettingsOf artData)"
  by (auto simp: parseArticulation_def Let_def split: if_splits jsval.splits)

lemma remoteTriggerOf_fallback:
  assumes "mapGet sm (artIdOf artData) = JUndefined"
  shows "0 \<le> q \<Longrightarrow> q \<le> 127 \<Longrightarrow>
           remoteTriggerOf js sm artData (JNum (Finite q))
             = Some \<lparr>rt_status = 144, rt_data1 = JNum (Finite q), isAutoAssigned = Some True\<rparr>"
    and "remoteTriggerOf js sm artData JUndefined = None"
    and "\<not> ge0 js mb1 \<Longrightarrow> remoteTriggerOf js sm artData mb1 = None"
  using assms by (simp_all add: remoteTriggerOf_def ge0_def)

text \<open>
  C6 (amended). For an entry of the articulations array that no switch matches, the
  remote trigger follows from what reading \<open>MB1\<close> from its output settings gives (an own
  property, or a property of a prototype the document installed). A number from 0 to 127
  gives the remote trigger \<open>{0x90, MB1, isAutoAssigned: true}\<close>. No \<open>MB1\<close>, or an \<open>MB1\<close>
  for which \<open>MB1 >= 0\<close> is false (a negative number among them), gives no remote
  trigger, whether a \<open>Note\<close> key is there or not.
\<close>

theorem fallback_remote_trigger:
  assumes "parseArticulations js switchesMap entries 0 = Inr as"
    and "i < length entries"
    and "mapGet switchesMap (artIdOf (entries ! i)) = JUndefined"
  shows "(\<forall>q. getProp (outputSettingsOf (entries ! i)) ''MB1'' = JNum (Finite q)
              \<and> 0 \<le> q \<and> q \<le> 127
            \<longrightarrow> remoteTrigger (as ! i)
                  = Some \<lparr>rt_status = 144, rt_data1 = JNum (Finite q),
                          isAutoAssigned = Some True\<rparr>)
       \<and> (getProp (outputSettingsOf (entries ! i)) ''MB1'' = JUndefined
            \<longrightarrow> remoteTrigger (as ! i) = None)
       \<and> (\<forall>q. getProp (outputSettingsOf (entries ! i)) ''MB1'' = JNum (Finite q) \<and> q < 0
            \<longrightarrow> remoteTrigger (as ! i) = None)
       \<and> (\<not> ge0 js (getProp (outputSettingsOf (entries ! i)) ''MB1'')
            \<longrightarrow> remoteTrigger (as ! i) = None)"
proof -
  from parseArticulations_nth [OF assms(1)] assms(2)
  have "parseArticulation js switchesMap (entries ! i) i = Inr (as ! i)" by simp
  then have "remoteTrigger (as ! i)
      = remoteTriggerOf js switchesMap (entries ! i) (getProp (outputSettingsOf (entries ! i)) ''MB1'')"
    by (simp add: remoteTriggerOf_parsed)
  moreover have "\<not> ge0 js (JNum (Finite q))" if "q < 0" for q
    using that by (simp add: ge0_def)
  ultimately show ?thesis
    using remoteTriggerOf_fallback [OF assms(3)] by auto
qed

lemma fourEntries_parsed:
  "\<exists>a b c d. parseArticulations exampleRuntime []
                 [mb1Entry, noteEntry, negativeEntry, inheritedEntry] 0 = Inr [a, b, c, d]"
  by (simp add: mb1Entry_def noteEntry_def negativeEntry_def inheritedEntry_def
        parser_defs value_defs Let_def)

theorem fallback_remote_trigger_witness:
  "\<exists>as. parseArticulations exampleRuntime []
           [mb1Entry, noteEntry, negativeEntry, inheritedEntry] 0 = Inr as
     \<and> remoteTrigger (as ! 0)
         = Some \<lparr>rt_status = 144, rt_data1 = JNum (Finite 60), isAutoAssigned = Some True\<rparr>
     \<and> remoteTrigger (as ! 1) = None
     \<and> remoteTrigger (as ! 2) = None
     \<and> remoteTrigger (as ! 3)
         = Some \<lparr>rt_status = 144, rt_data1 = JNum (Finite 60), isAutoAssigned = Some True\<rparr>"
proof -
  from fourEntries_parsed obtain a b c d where
    p: "parseArticulations exampleRuntime []
          [mb1Entry, noteEntry, negativeEntry, inheritedEntry] 0 = Inr [a, b, c, d]" by blast
  have m: "mapGet [] k = JUndefined" for k by (simp add: mapGet_def)
  have "remoteTrigger ([a, b, c, d] ! 0)
         = Some \<lparr>rt_status = 144, rt_data1 = JNum (Finite 60), isAutoAssigned = Some True\<rparr>"
    using fallback_remote_trigger [OF p, of 0]
    by (simp add: m mb1Entry_def outputSettingsOf_def lor_def)
  moreover have "remoteTrigger ([a, b, c, d] ! 1) = None"
    using fallback_remote_trigger [OF p, of 1]
    by (simp add: m noteEntry_def outputSettingsOf_def lor_def)
  moreover have "remoteTrigger ([a, b, c, d] ! 2) = None"
    using fallback_remote_trigger [OF p, of 2]
    by (simp add: m negativeEntry_def outputSettingsOf_def lor_def)
  moreover have "remoteTrigger ([a, b, c, d] ! 3)
         = Some \<lparr>rt_status = 144, rt_data1 = JNum (Finite 60), isAutoAssigned = Some True\<rparr>"
    using fallback_remote_trigger [OF p, of 3]
    by (simp add: m inheritedEntry_def outputSettingsOf_def lor_def)
  ultimately show ?thesis using p by blast
qed

text \<open>
  A document whose one articulation has the output \<open>{Note: 60}\<close>: the note is sent, and
  there is no remote trigger.
\<close>

theorem fallback_remote_trigger_counterexample:
  "map midiMessages
       (parsedArticulations (parseLogicArticulationSet exampleRuntime noteOnly_doc ''Strings.plist''))
     = [[\<lparr>status = 144, data1 = JNum (Finite 60), data2 = JNum (Finite 127)\<rparr>]]
   \<and> map remoteTrigger
       (parsedArticulations (parseLogicArticulationSet exampleRuntime noteOnly_doc ''Strings.plist''))
     = [None]"
  by (simp add: noteOnly_doc_def parsedArticulations_def exampleRuntime_def parser_defs value_defs
        example_defs string_defs Let_def)

text \<open>
  A document that installs a prototype with \<open>MB1\<close> 60 on the output dictionary: the parser
  reads the inherited \<open>MB1\<close>, for the message and for the remote trigger.
\<close>

lemma inherited_mb1_parsed:
  "map (\<lambda>a. (midiMessages a, remoteTrigger a))
       (parsedArticulations
          (parseLogicArticulationSet exampleRuntime inheritedMb1_doc ''Strings.plist''))
     = [([\<lparr>status = 144, data1 = JNum (Finite 60), data2 = JNum (Finite 127)\<rparr>],
         Some \<lparr>rt_status = 144, rt_data1 = JNum (Finite 60), isAutoAssigned = Some True\<rparr>)]"
  by (simp add: inheritedMb1_doc_def parsedArticulations_def exampleRuntime_def parser_defs
        value_defs example_defs string_defs Let_def)

section \<open>Parsing twice\<close>

lemma parsePlist_clock:
  "parsePlistValue (js\<lparr>dateNow := d, mathRandom := r\<rparr>) e = parsePlistValue js e"
  "parsePlistPairs (js\<lparr>dateNow := d, mathRandom := r\<rparr>) es acc = parsePlistPairs js es acc"
  "parsePlistArray (js\<lparr>dateNow := d, mathRandom := r\<rparr>) es' = parsePlistArray js es'"
  by (induction js e and js es acc and js es'
      rule: parsePlistValue_parsePlistPairs_parsePlistArray.induct) auto

lemma toNumber_clock: "toNumber (js\<lparr>dateNow := d, mathRandom := r\<rparr>) v = toNumber js v"
  by (cases v) simp_all

lemma range_clock:
  "ge0 (js\<lparr>dateNow := d, mathRandom := r\<rparr>) v = ge0 js v"
  "le127 (js\<lparr>dateNow := d, mathRandom := r\<rparr>) v = le127 js v"
  by (simp_all add: ge0_def le127_def toNumber_clock)

lemma outputMessages_clock:
  "outputMessages (js\<lparr>dateNow := d, mathRandom := r\<rparr>) out = outputMessages js out"
  by (simp add: outputMessages_def range_clock)

lemma remoteTriggerOf_clock:
  "remoteTriggerOf (js\<lparr>dateNow := d, mathRandom := r\<rparr>) sm a mb1 = remoteTriggerOf js sm a mb1"
  by (simp add: remoteTriggerOf_def range_clock)

lemma parseArticulation_clock:
  "map_sum id (\<lambda>a. a\<lparr>art_id := []\<rparr>)
       (parseArticulation (js\<lparr>dateNow := d, mathRandom := r\<rparr>) sm artData i)
     = map_sum id (\<lambda>a. a\<lparr>art_id := []\<rparr>) (parseArticulation js sm artData i)"
  by (simp add: parseArticulation_def outputMessages_clock remoteTriggerOf_clock Let_def
        split: jsval.splits)

lemma parseArticulations_clock:
  "map_sum id (map (\<lambda>a. a\<lparr>art_id := []\<rparr>))
       (parseArticulations (js\<lparr>dateNow := d, mathRandom := r\<rparr>) sm arts i)
     = map_sum id (map (\<lambda>a. a\<lparr>art_id := []\<rparr>)) (parseArticulations js sm arts i)"
proof (induction arts arbitrary: i)
  case Nil
  then show ?case by simp
next
  case (Cons artData arts)
  let ?js' = "js\<lparr>dateNow := d, mathRandom := r\<rparr>"
  show ?case
    using parseArticulation_clock [where js = js and d = d and r = r and sm = sm and artData = artData and i = i]
      Cons.IH [of "i + 1"]
    by (cases "parseArticulation ?js' sm artData i";
        cases "parseArticulation js sm artData i";
        cases "parseArticulations ?js' sm arts (i + 1)";
        cases "parseArticulations js sm arts (i + 1)") simp_all
qed

text \<open>
  C8. Two calls of the parser on the same document and file name differ only in what the
  clock and the random generator give them. Whatever those give, the two calls throw the
  same error or return sets with the same name, the same file name and the same
  articulations in the same order, equal in every field but the generated id.
\<close>

theorem parse_deterministic:
  "withoutIds (parseLogicArticulationSet (js\<lparr>dateNow := d, mathRandom := r\<rparr>) doc file)
     = withoutIds (parseLogicArticulationSet js doc file)"
proof (cases "querySelector [] doc")
  case None
  then show ?thesis by (simp add: parseLogicArticulationSet_def)
next
  case (Some rootDict)
  let ?js' = "js\<lparr>dateNow := d, mathRandom := r\<rparr>"
  define rootData where "rootData = JObj (parsePlistDict js rootDict)"
  define setName0 where
    "setName0 = lor (getProp rootData ''Name'')
                  (lor (getProp rootData ''name'') (JStr (replaceFirst file ''.plist'' [])))"
  define articulationsData where
    "articulationsData = lor (getProp rootData ''Articulations'')
                           (lor (getProp rootData ''articulations'') (JArr []))"
  define switchesData where
    "switchesData = lor (getProp rootData ''Switches'') (lor (getProp rootData ''switches'') (JArr []))"
  define finish where
    "finish = (\<lambda>s (x :: error + Articulation list).
       case x of
         Inl e \<Rightarrow> Inl e
       | Inr as \<Rightarrow>
           Inr \<lparr>set_name = stripVendorTag (stripPlistSuffix s), fileName = file,
                articulations = as, isMerged = None, sourceMapNames = None\<rparr>)"
  define body where
    "body = (\<lambda>run :: (jsval \<times> jsval) list \<Rightarrow> jsval list \<Rightarrow> error + Articulation list.
       case setName0 of
         JStr s \<Rightarrow>
           (case switchesData of
              JArr sws \<Rightarrow>
                (case articulationsData of
                   JArr arts \<Rightarrow> finish s (run (buildSwitchesMap sws) arts)
                 | _ \<Rightarrow> Inl TypeError)
            | _ \<Rightarrow> Inl TypeError)
       | _ \<Rightarrow> Inl TypeError)"
  have dict: "parsePlistDict ?js' rootDict = parsePlistDict js rootDict"
    by (simp add: parsePlistDict_def parsePlist_clock)
  have new: "parseLogicArticulationSet ?js' doc file
               = body (\<lambda>sm arts. parseArticulations ?js' sm arts 0)"
    unfolding parseLogicArticulationSet_def Some dict body_def finish_def setName0_def
      articulationsData_def switchesData_def rootData_def Let_def
    by (simp add: dict cong: jsval.case_cong)
  have old: "parseLogicArticulationSet js doc file
               = body (\<lambda>sm arts. parseArticulations js sm arts 0)"
    unfolding parseLogicArticulationSet_def Some body_def finish_def setName0_def
      articulationsData_def switchesData_def rootData_def Let_def
    by simp
  have fin: "withoutIds (finish s x) = finish s (map_sum id (map (\<lambda>a. a\<lparr>art_id := []\<rparr>)) x)"
    for s x
    by (cases x) (simp_all add: withoutIds_def finish_def)
  have "withoutIds (body (\<lambda>sm arts. parseArticulations ?js' sm arts 0))
          = withoutIds (body (\<lambda>sm arts. parseArticulations js sm arts 0))"
    unfolding body_def
    by (simp add: fin parseArticulations_clock split: jsval.splits)
  with new old show ?thesis by simp
qed

section \<open>Matching\<close>

text \<open>
  What the handler loads is one of the sets the search returned, and the search returns
  an entry only when the entry's name or path contains the track name.
\<close>

lemma str_includes_empty: "str_includes s []"
  by (cases s) simp_all

lemma search_keeps_containing_entries:
  assumes "s \<in> set (GET dir plistFiles (Some trackName))"
  shows "str_includes (toLowerCase (entry_name s)) (toLowerCase trackName)
       \<or> str_includes (toLowerCase (entry_path s)) (toLowerCase trackName)"
proof -
  from assms have "s \<in> set (case Some (toLowerCase trackName) of
               Some q \<Rightarrow>
                 (if q \<noteq> []
                  then filter (\<lambda>s. str_includes (toLowerCase (entry_name s)) q
                                 \<or> str_includes (toLowerCase (entry_path s)) q)
                         (map (catalogueEntry dir) plistFiles)
                  else map (catalogueEntry dir) plistFiles)
             | None \<Rightarrow> map (catalogueEntry dir) plistFiles)"
    by (auto simp: GET_def Let_def dest: in_set_takeD)
  then show ?thesis
    by (auto simp: str_includes_empty split: if_splits)
qed

lemma find_in_set: "find P xs = Some x \<Longrightarrow> x \<in> set xs"
  by (induction xs) (auto split: if_splits)

lemma loaded_choice_is_a_search_result:
  assumes "onTrackName dir plistFiles loadedSets trackName = LoadSet s"
  shows "s \<in> set (GET dir plistFiles (Some trackName))"
proof -
  from assms have "bestMatch trackName (GET dir plistFiles (Some trackName)) = Some s"
    by (auto simp: onTrackName_def split: option.splits)
  then show ?thesis
    by (auto simp: bestMatch_def split: list.splits option.splits if_splits dest: find_in_set)
qed

text \<open>
  The search answers with the first hundred entries whose name or path contains the
  track name, and the handler takes the first of them whose name contains it, the first
  of them all when there is none.
\<close>

lemma GET_search:
  "GET dir plistFiles (Some trackName)
     = take 100 (filter (\<lambda>s. includesIgnoringCase (entry_name s) trackName
                            \<or> includesIgnoringCase (entry_path s) trackName)
                   (map (catalogueEntry dir) plistFiles))"
proof (cases "toLowerCase trackName = []")
  case True
  then show ?thesis
    by (simp add: GET_def Let_def includesIgnoringCase_def str_includes_empty)
next
  case False
  then show ?thesis
    by (simp add: GET_def Let_def includesIgnoringCase_def)
qed

lemma bestMatch_choice:
  "bestMatch trackName sets
     = (if sets = [] then None
        else Some (case find (\<lambda>s. includesIgnoringCase (entry_name s) trackName) sets of
                     Some exactMatch \<Rightarrow> exactMatch
                   | None \<Rightarrow> hd sets))"
  by (cases sets) (simp_all add: bestMatch_def includesIgnoringCase_def split: option.splits)

lemma find_skips: "\<forall>a\<in>set xs. \<not> P a \<Longrightarrow> find P (xs @ ys) = find P ys"
  by (induction xs) simp_all

lemma first_of_search:
  assumes i: "i < length sets"
    and here: "Q (sets ! i)"
    and cap: "length (filter Q (take i sets)) < n"
  shows "\<exists>rest. take n (filter Q sets) = filter Q (take i sets) @ sets ! i # rest"
proof -
  have "sets = take i sets @ sets ! i # drop (Suc i) sets"
    using i by (simp add: id_take_nth_drop)
  then have "filter Q sets = filter Q (take i sets) @ sets ! i # filter Q (drop (Suc i) sets)"
    using here by (metis filter.simps(2) filter_append)
  then show ?thesis using cap by (simp add: take_Cons')
qed

lemma cachedSet_first:
  assumes "i < length loadedSets"
    and "includesIgnoringCase (fst (loadedSets ! i)) trackName
         \<or> includesIgnoringCase trackName (fst (loadedSets ! i))"
    and "\<forall>j < i. \<not> includesIgnoringCase (fst (loadedSets ! j)) trackName
                 \<and> \<not> includesIgnoringCase trackName (fst (loadedSets ! j))"
  shows "cachedSet loadedSets trackName = Some (snd (loadedSets ! i))"
proof -
  have "find (\<lambda>p. str_includes (toLowerCase (fst p)) (toLowerCase trackName)
                 \<or> str_includes (toLowerCase trackName) (toLowerCase (fst p))) loadedSets
          = Some (loadedSets ! i)"
    unfolding find_Some_iff using assms by (auto simp: includesIgnoringCase_def)
  then show ?thesis by (simp add: cachedSet_def)
qed

lemma cachedSet_none:
  assumes "\<forall>p\<in>set loadedSets. \<not> includesIgnoringCase (fst p) trackName
                              \<and> \<not> includesIgnoringCase trackName (fst p)"
  shows "cachedSet loadedSets trackName = None"
proof -
  have "find (\<lambda>p. str_includes (toLowerCase (fst p)) (toLowerCase trackName)
                 \<or> str_includes (toLowerCase trackName) (toLowerCase (fst p))) loadedSets
          = None"
    unfolding find_None_iff using assms by (auto simp: includesIgnoringCase_def)
  then show ?thesis by (simp add: cachedSet_def)
qed

lemma search_prefers_name:
  assumes i: "i < length sets"
    and name: "includesIgnoringCase (entry_name (sets ! i)) trackName"
    and first: "\<forall>j < i. \<not> includesIgnoringCase (entry_name (sets ! j)) trackName"
    and cap: "length (filter (\<lambda>s. includesIgnoringCase (entry_path s) trackName) (take i sets)) < 100"
  shows "bestMatch trackName
           (take 100 (filter (\<lambda>s. includesIgnoringCase (entry_name s) trackName
                                  \<or> includesIgnoringCase (entry_path s) trackName) sets))
         = Some (sets ! i)"
proof -
  let ?Q = "\<lambda>s. includesIgnoringCase (entry_name s) trackName
               \<or> includesIgnoringCase (entry_path s) trackName"
  have before: "\<forall>s\<in>set (take i sets). \<not> includesIgnoringCase (entry_name s) trackName"
    using first i by (auto simp: in_set_conv_nth)
  then have "filter ?Q (take i sets)
               = filter (\<lambda>s. includesIgnoringCase (entry_path s) trackName) (take i sets)"
    by (intro filter_cong) auto
  with cap have "length (filter ?Q (take i sets)) < 100" by simp
  with first_of_search [of i sets ?Q 100] i name obtain rest where
    S: "take 100 (filter ?Q sets) = filter ?Q (take i sets) @ sets ! i # rest" by blast
  have "find (\<lambda>s. includesIgnoringCase (entry_name s) trackName)
          (filter ?Q (take i sets) @ sets ! i # rest) = Some (sets ! i)"
    using before name by (subst find_skips) auto
  then show ?thesis
    unfolding S by (simp add: bestMatch_choice)
qed

lemma search_falls_back_on_path:
  assumes i: "i < length sets"
    and none: "\<forall>s\<in>set sets. \<not> includesIgnoringCase (entry_name s) trackName"
    and path: "includesIgnoringCase (entry_path (sets ! i)) trackName"
    and first: "\<forall>j < i. \<not> includesIgnoringCase (entry_path (sets ! j)) trackName"
  shows "bestMatch trackName
           (take 100 (filter (\<lambda>s. includesIgnoringCase (entry_name s) trackName
                                  \<or> includesIgnoringCase (entry_path s) trackName) sets))
         = Some (sets ! i)"
proof -
  let ?Q = "\<lambda>s. includesIgnoringCase (entry_name s) trackName
               \<or> includesIgnoringCase (entry_path s) trackName"
  have "\<forall>s\<in>set (take i sets). \<not> ?Q s"
    using first none i by (auto simp: in_set_conv_nth dest: in_set_takeD)
  then have empty: "filter ?Q (take i sets) = []" by (simp add: filter_empty_conv)
  with first_of_search [of i sets ?Q 100] i path obtain rest where
    S: "take 100 (filter ?Q sets) = sets ! i # rest" by auto
  have "set (take 100 (filter ?Q sets)) \<subseteq> set sets"
    by (auto dest: in_set_takeD)
  then have "find (\<lambda>s. includesIgnoringCase (entry_name s) trackName) (take 100 (filter ?Q sets))
               = None"
    unfolding find_None_iff using none by blast
  then show ?thesis
    using S by (simp add: bestMatch_choice)
qed

text \<open>
  C4 (amended). Matching is containment between lower-cased names. A loaded set is used
  when its name contains the track name or the track name contains its name: the first
  such set, in the order the sets were loaded. When no loaded set is used, the library
  is searched. The first file whose entry name contains the track name is loaded,
  provided fewer than a hundred files before it have a path that contains the track
  name. When no entry name of the library contains the track name or is contained in
  it, the first file whose path contains the track name is loaded. When moreover no path
  contains the track name, nothing is loaded.
\<close>

theorem track_matching:
  "(\<forall>i < length loadedSets.
       (includesIgnoringCase (fst (loadedSets ! i)) trackName
        \<or> includesIgnoringCase trackName (fst (loadedSets ! i)))
       \<and> (\<forall>j < i. \<not> includesIgnoringCase (fst (loadedSets ! j)) trackName
                  \<and> \<not> includesIgnoringCase trackName (fst (loadedSets ! j)))
     \<longrightarrow> onTrackName dir plistFiles loadedSets trackName = UseCached (snd (loadedSets ! i)))
   \<and> ((\<forall>p\<in>set loadedSets. \<not> includesIgnoringCase (fst p) trackName
                           \<and> \<not> includesIgnoringCase trackName (fst p))
      \<longrightarrow>
        (\<forall>i < length plistFiles.
            includesIgnoringCase (entry_name (catalogueEntry dir (plistFiles ! i))) trackName
            \<and> (\<forall>j < i. \<not> includesIgnoringCase
                            (entry_name (catalogueEntry dir (plistFiles ! j))) trackName)
            \<and> length (filter (\<lambda>f. includesIgnoringCase (entry_path (catalogueEntry dir f)) trackName)
                        (take i plistFiles)) < 100
          \<longrightarrow> onTrackName dir plistFiles loadedSets trackName
                = LoadSet (catalogueEntry dir (plistFiles ! i)))
        \<and> ((\<forall>f\<in>set plistFiles.
               \<not> includesIgnoringCase (entry_name (catalogueEntry dir f)) trackName
               \<and> \<not> includesIgnoringCase trackName (entry_name (catalogueEntry dir f)))
           \<longrightarrow>
             (\<forall>i < length plistFiles.
                 includesIgnoringCase (entry_path (catalogueEntry dir (plistFiles ! i))) trackName
                 \<and> (\<forall>j < i. \<not> includesIgnoringCase
                                 (entry_path (catalogueEntry dir (plistFiles ! j))) trackName)
               \<longrightarrow> onTrackName dir plistFiles loadedSets trackName
                     = LoadSet (catalogueEntry dir (plistFiles ! i))))
        \<and> ((\<forall>f\<in>set plistFiles.
               \<not> includesIgnoringCase (entry_name (catalogueEntry dir f)) trackName
               \<and> \<not> includesIgnoringCase (entry_path (catalogueEntry dir f)) trackName
               \<and> \<not> includesIgnoringCase trackName (entry_name (catalogueEntry dir f)))
           \<longrightarrow> onTrackName dir plistFiles loadedSets trackName = NoMatch))"
proof (intro conjI allI impI)
  fix i
  assume "i < length loadedSets"
    and "(includesIgnoringCase (fst (loadedSets ! i)) trackName
          \<or> includesIgnoringCase trackName (fst (loadedSets ! i)))
         \<and> (\<forall>j < i. \<not> includesIgnoringCase (fst (loadedSets ! j)) trackName
                    \<and> \<not> includesIgnoringCase trackName (fst (loadedSets ! j)))"
  then have "cachedSet loadedSets trackName = Some (snd (loadedSets ! i))"
    by (intro cachedSet_first) simp_all
  then show "onTrackName dir plistFiles loadedSets trackName = UseCached (snd (loadedSets ! i))"
    by (simp add: onTrackName_def)
next
  let ?sets = "map (catalogueEntry dir) plistFiles"
  assume "\<forall>p\<in>set loadedSets. \<not> includesIgnoringCase (fst p) trackName
                              \<and> \<not> includesIgnoringCase trackName (fst p)"
  then have c: "cachedSet loadedSets trackName = None" by (rule cachedSet_none)
  fix i
  assume i: "i < length plistFiles"
    and h: "includesIgnoringCase (entry_name (catalogueEntry dir (plistFiles ! i))) trackName
            \<and> (\<forall>j < i. \<not> includesIgnoringCase
                            (entry_name (catalogueEntry dir (plistFiles ! j))) trackName)
            \<and> length (filter (\<lambda>f. includesIgnoringCase (entry_path (catalogueEntry dir f)) trackName)
                        (take i plistFiles)) < 100"
  have "filter (\<lambda>s. includesIgnoringCase (entry_path s) trackName) (take i ?sets)
          = map (catalogueEntry dir)
              (filter (\<lambda>f. includesIgnoringCase (entry_path (catalogueEntry dir f)) trackName)
                 (take i plistFiles))"
    by (simp add: take_map filter_map comp_def)
  then have cap: "length (filter (\<lambda>s. includesIgnoringCase (entry_path s) trackName) (take i ?sets))
                    < 100"
    using h by simp
  have "bestMatch trackName (GET dir plistFiles (Some trackName)) = Some (?sets ! i)"
    unfolding GET_search
    using i h by (intro search_prefers_name cap) simp_all
  then show "onTrackName dir plistFiles loadedSets trackName
               = LoadSet (catalogueEntry dir (plistFiles ! i))"
    using c i by (simp add: onTrackName_def)
next
  let ?sets = "map (catalogueEntry dir) plistFiles"
  assume "\<forall>p\<in>set loadedSets. \<not> includesIgnoringCase (fst p) trackName
                              \<and> \<not> includesIgnoringCase trackName (fst p)"
  then have c: "cachedSet loadedSets trackName = None" by (rule cachedSet_none)
  assume none: "\<forall>f\<in>set plistFiles.
               \<not> includesIgnoringCase (entry_name (catalogueEntry dir f)) trackName
               \<and> \<not> includesIgnoringCase trackName (entry_name (catalogueEntry dir f))"
  fix i
  assume i: "i < length plistFiles"
    and h: "includesIgnoringCase (entry_path (catalogueEntry dir (plistFiles ! i))) trackName
            \<and> (\<forall>j < i. \<not> includesIgnoringCase
                            (entry_path (catalogueEntry dir (plistFiles ! j))) trackName)"
  have "bestMatch trackName (GET dir plistFiles (Some trackName)) = Some (?sets ! i)"
    unfolding GET_search
    using i h none by (intro search_falls_back_on_path) simp_all
  then show "onTrackName dir plistFiles loadedSets trackName
               = LoadSet (catalogueEntry dir (plistFiles ! i))"
    using c i by (simp add: onTrackName_def)
next
  assume "\<forall>p\<in>set loadedSets. \<not> includesIgnoringCase (fst p) trackName
                              \<and> \<not> includesIgnoringCase trackName (fst p)"
  then have c: "cachedSet loadedSets trackName = None" by (rule cachedSet_none)
  assume "\<forall>f\<in>set plistFiles.
               \<not> includesIgnoringCase (entry_name (catalogueEntry dir f)) trackName
               \<and> \<not> includesIgnoringCase (entry_path (catalogueEntry dir f)) trackName
               \<and> \<not> includesIgnoringCase trackName (entry_name (catalogueEntry dir f))"
  then have "GET dir plistFiles (Some trackName) = []"
    unfolding GET_search by (simp add: filter_empty_conv)
  then show "onTrackName dir plistFiles loadedSets trackName = NoMatch"
    using c by (simp add: onTrackName_def bestMatch_def)
qed




text \<open>
  The entries of the two example files, and the lower-cased strings of the examples.
\<close>

lemma stradivariEntry:
  "catalogueEntry libraryDir stradivariFile
     = \<lparr>entry_name = ''Stradivari Violin'', entry_path = ''Strings/Stradivari Violin.plist'',
        fullPath = stradivariFile\<rparr>"
  by (simp add: catalogueEntry_def libraryDir_def stradivariFile_def string_defs Let_def)

lemma violinSoloEntry:
  "catalogueEntry libraryDir violinSoloFile
     = \<lparr>entry_name = ''Violin 1 Solo'', entry_path = ''Strings/Violin 1 Solo.plist'',
        fullPath = violinSoloFile\<rparr>"
  by (simp add: catalogueEntry_def libraryDir_def violinSoloFile_def string_defs Let_def)

lemma lowered:
  "toLowerCase ''Stradivari Violin'' = ''stradivari violin''"
  "toLowerCase ''Strings/Stradivari Violin.plist'' = ''strings/stradivari violin.plist''"
  "toLowerCase ''Violin 1 Solo'' = ''violin 1 solo''"
  "toLowerCase ''Strings/Violin 1 Solo.plist'' = ''strings/violin 1 solo.plist''"
  "toLowerCase ''Violin 1 Solo Legato'' = ''violin 1 solo legato''"
  "toLowerCase ''Violin 1'' = ''violin 1''"
  "toLowerCase ''Violin'' = ''violin''"
  "toLowerCase ''violin'' = ''violin''"
  "toLowerCase ''strings'' = ''strings''"
  "toLowerCase ''Cello'' = ''cello''"
  by (simp_all add: string_defs)

lemmas containment = includesIgnoringCase_def lowered

theorem track_matching_witness:
  "onTrackName libraryDir [stradivariFile, violinSoloFile] [(''Violin'', customSet [])] ''Violin 1''
     = UseCached (customSet [])
   \<and> onTrackName libraryDir [violinSoloFile] [] ''violin''
     = LoadSet \<lparr>entry_name = ''Violin 1 Solo'', entry_path = ''Strings/Violin 1 Solo.plist'',
                 fullPath = violinSoloFile\<rparr>
   \<and> onTrackName libraryDir [stradivariFile, violinSoloFile] [] ''Violin 1''
     = LoadSet \<lparr>entry_name = ''Violin 1 Solo'', entry_path = ''Strings/Violin 1 Solo.plist'',
                 fullPath = violinSoloFile\<rparr>
   \<and> onTrackName libraryDir [stradivariFile, violinSoloFile] [] ''strings''
     = LoadSet \<lparr>entry_name = ''Stradivari Violin'',
                 entry_path = ''Strings/Stradivari Violin.plist'', fullPath = stradivariFile\<rparr>
   \<and> onTrackName libraryDir [stradivariFile, violinSoloFile] [] ''Cello'' = NoMatch"
proof -
  let ?files = "[stradivariFile, violinSoloFile]"
  have none: "\<forall>p\<in>set ([] :: (string \<times> ArticulationSet) list).
            \<not> includesIgnoringCase (fst p) t \<and> \<not> includesIgnoringCase t (fst p)" for t
    by simp
  have "onTrackName libraryDir ?files [(''Violin'', customSet [])] ''Violin 1''
          = UseCached (snd ([(''Violin'', customSet [])] ! 0))"
  proof (rule conjunct1 [OF track_matching, rule_format, of 0])
    show "0 < length [(''Violin'', customSet [])]" by simp
    show "(includesIgnoringCase (fst ([(''Violin'', customSet [])] ! 0)) ''Violin 1''
           \<or> includesIgnoringCase ''Violin 1'' (fst ([(''Violin'', customSet [])] ! 0)))
          \<and> (\<forall>j<0. \<not> includesIgnoringCase (fst ([(''Violin'', customSet [])] ! j)) ''Violin 1''
                    \<and> \<not> includesIgnoringCase ''Violin 1'' (fst ([(''Violin'', customSet [])] ! j)))"
      by (simp add: containment)
  qed
  then have a: "onTrackName libraryDir ?files [(''Violin'', customSet [])] ''Violin 1''
                  = UseCached (customSet [])"
    by simp
  have "onTrackName libraryDir [violinSoloFile] [] ''violin''
          = LoadSet (catalogueEntry libraryDir ([violinSoloFile] ! 0))"
  proof (rule conjunct1 [OF mp [OF conjunct2 [OF track_matching] none], rule_format, of 0])
    show "0 < length [violinSoloFile]" by simp
    show "includesIgnoringCase (entry_name (catalogueEntry libraryDir ([violinSoloFile] ! 0))) ''violin''
          \<and> (\<forall>j<0. \<not> includesIgnoringCase
                         (entry_name (catalogueEntry libraryDir ([violinSoloFile] ! j))) ''violin'')
          \<and> length (filter (\<lambda>f. includesIgnoringCase (entry_path (catalogueEntry libraryDir f)) ''violin'')
                      (take 0 [violinSoloFile])) < 100"
      by (simp add: violinSoloEntry containment)
  qed
  then have b: "onTrackName libraryDir [violinSoloFile] [] ''violin''
     = LoadSet \<lparr>entry_name = ''Violin 1 Solo'', entry_path = ''Strings/Violin 1 Solo.plist'',
                 fullPath = violinSoloFile\<rparr>"
    by (simp add: violinSoloEntry)
  have "onTrackName libraryDir ?files [] ''Violin 1''
          = LoadSet (catalogueEntry libraryDir (?files ! 1))"
  proof (rule conjunct1 [OF mp [OF conjunct2 [OF track_matching] none], rule_format, of 1])
    show "1 < length ?files" by simp
    show "includesIgnoringCase (entry_name (catalogueEntry libraryDir (?files ! 1))) ''Violin 1''
          \<and> (\<forall>j<1. \<not> includesIgnoringCase
                         (entry_name (catalogueEntry libraryDir (?files ! j))) ''Violin 1'')
          \<and> length (filter (\<lambda>f. includesIgnoringCase (entry_path (catalogueEntry libraryDir f)) ''Violin 1'')
                      (take 1 ?files)) < 100"
      by (simp add: violinSoloEntry stradivariEntry containment)
  qed
  then have c: "onTrackName libraryDir ?files [] ''Violin 1''
     = LoadSet \<lparr>entry_name = ''Violin 1 Solo'', entry_path = ''Strings/Violin 1 Solo.plist'',
                 fullPath = violinSoloFile\<rparr>"
    by (simp add: violinSoloEntry)
  have names: "\<forall>f\<in>set ?files.
               \<not> includesIgnoringCase (entry_name (catalogueEntry libraryDir f)) ''strings''
               \<and> \<not> includesIgnoringCase ''strings'' (entry_name (catalogueEntry libraryDir f))"
    by (simp add: violinSoloEntry stradivariEntry containment)
  have "onTrackName libraryDir ?files [] ''strings''
          = LoadSet (catalogueEntry libraryDir (?files ! 0))"
  proof (rule mp [OF conjunct1 [OF conjunct2 [OF mp [OF conjunct2 [OF track_matching] none]]] names,
                  rule_format, of 0])
    show "0 < length ?files" by simp
    show "includesIgnoringCase (entry_path (catalogueEntry libraryDir (?files ! 0))) ''strings''
          \<and> (\<forall>j<0. \<not> includesIgnoringCase
                         (entry_path (catalogueEntry libraryDir (?files ! j))) ''strings'')"
      by (simp add: stradivariEntry containment)
  qed
  then have d: "onTrackName libraryDir ?files [] ''strings''
     = LoadSet \<lparr>entry_name = ''Stradivari Violin'',
                 entry_path = ''Strings/Stradivari Violin.plist'', fullPath = stradivariFile\<rparr>"
    by (simp add: stradivariEntry)
  have absent: "\<forall>f\<in>set ?files.
               \<not> includesIgnoringCase (entry_name (catalogueEntry libraryDir f)) ''Cello''
               \<and> \<not> includesIgnoringCase (entry_path (catalogueEntry libraryDir f)) ''Cello''
               \<and> \<not> includesIgnoringCase ''Cello'' (entry_name (catalogueEntry libraryDir f))"
    by (simp add: violinSoloEntry stradivariEntry containment)
  have e: "onTrackName libraryDir ?files [] ''Cello'' = NoMatch"
    by (rule mp [OF conjunct2 [OF conjunct2 [OF mp [OF conjunct2 [OF track_matching
          [of "[]" "''Cello''" libraryDir ?files]] none]]] absent])
  show ?thesis using a b c d e by simp
qed

text \<open>
  The track name \<open>Violin 1\<close> and the entry \<open>Stradivari Violin\<close>: neither lower-cased name
  contains the other, and nothing is found for the track, in the library or among the
  loaded sets. The track name \<open>strings\<close> and the same entry: neither name contains the
  other, and the file is loaded, for its path contains the track name.
\<close>

theorem track_matching_counterexample:
  "entry_name (catalogueEntry libraryDir stradivariFile) = ''Stradivari Violin''
   \<and> \<not> includesIgnoringCase ''Stradivari Violin'' ''Violin 1''
   \<and> \<not> includesIgnoringCase ''Violin 1'' ''Stradivari Violin''
   \<and> onTrackName libraryDir [stradivariFile] [] ''Violin 1'' = NoMatch
   \<and> onTrackName libraryDir [stradivariFile] [(''Stradivari Violin'', customSet [])] ''Violin 1''
       = NoMatch
   \<and> \<not> includesIgnoringCase ''Stradivari Violin'' ''strings''
   \<and> \<not> includesIgnoringCase ''strings'' ''Stradivari Violin''
   \<and> onTrackName libraryDir [stradivariFile] [] ''strings''
       = LoadSet \<lparr>entry_name = ''Stradivari Violin'',
                   entry_path = ''Strings/Stradivari Violin.plist'', fullPath = stradivariFile\<rparr>"
  by (simp add: onTrackName_def cachedSet_def bestMatch_def GET_def stradivariEntry containment
        Let_def)

text \<open>
  In the library, a track name that contains the name of an entry finds nothing: the
  search looks for the track name in the entry, not for the entry's name in the track
  name.
\<close>

lemma contained_name_not_matched:
  "includesIgnoringCase ''Violin 1 Solo Legato'' ''Violin 1 Solo''
   \<and> onTrackName libraryDir [violinSoloFile] [] ''Violin 1 Solo Legato'' = NoMatch"
  by (simp add: onTrackName_def cachedSet_def bestMatch_def GET_def violinSoloEntry containment
        Let_def)

section \<open>Sending with the global channel\<close>

lemma toInt32_small: "0 \<le> x \<Longrightarrow> x < 256 \<Longrightarrow> toInt32 x = x"
  unfolding toInt32_def
  by (rule signed_take_bit_int_eq_self) simp_all

lemma and_push_mask: "(x::int) AND push_bit 4 (mask 4) = push_bit 4 (take_bit 4 (drop_bit 4 x))"
  by (rule bit_eqI) (auto simp: bit_simps)

lemma and_240:
  assumes "0 \<le> x" "x < 256" shows "(x::int) AND 240 = 16 * (x div 16)"
proof -
  have "(240::int) = push_bit 4 (mask 4)" by (simp add: push_bit_eq_mult mask_eq_exp_minus_1)
  then have "x AND 240 = push_bit 4 (take_bit 4 (drop_bit 4 x))" by (simp only: and_push_mask)
  also have "\<dots> = 16 * ((x div 16) mod 16)" by (simp add: push_bit_eq_mult drop_bit_eq_div take_bit_eq_mod)
  also have "(x div 16) mod 16 = x div 16" using assms by simp
  finally show ?thesis .
qed

lemma low_disjoint: "push_bit 4 (y::int) AND take_bit 4 c = 0"
  by (rule bit_eqI) (auto simp: bit_simps)

lemma or_low:
  assumes "0 \<le> c" "c < 16" shows "(16 * (y::int)) OR c = 16 * y + c"
proof -
  have c: "take_bit 4 c = c" using assms by (simp add: take_bit_eq_mod)
  have "push_bit 4 y AND c = 0" using low_disjoint [of y c] c by simp
  then have "push_bit 4 y + c = push_bit 4 y OR c" by (rule disjunctive_add_eq_or)
  then show ?thesis by (simp add: push_bit_eq_mult mult.commute)
qed

lemma channelStatus_voice:
  assumes "0 \<le> ch" "ch \<le> 15" "128 \<le> st" "st < 240"
  shows "channelStatus True ch st = 16 * (st div 16) + ch"
proof -
  have a: "bitAnd st 240 = 16 * (st div 16)"
    using assms by (simp add: bitAnd_def toInt32_small and_240)
  have "0 \<le> 16 * (st div 16)" "16 * (st div 16) < 256" using assms by simp_all
  then have b: "bitOr (16 * (st div 16)) ch = 16 * (st div 16) + ch"
    using assms by (simp add: bitOr_def toInt32_small or_low)
  show ?thesis using assms a b by (simp add: channelStatus_def)
qed

lemma channelStatus_other: "\<not> (128 \<le> st \<and> st < 240) \<Longrightarrow> channelStatus g ch st = st"
  by (auto simp: channelStatus_def)

lemma sendToOutput_nth:
  "length (snd (sendToOutput out ch g ms)) \<le> length ms
   \<and> (\<forall>i < length (snd (sendToOutput out ch g ms)).
         snd (sendToOutput out ch g ms) ! i
           = ViaWebMidi (channelStatus g ch (status (ms ! i))) (data1 (ms ! i)) (data2 (ms ! i)))"
proof (induction ms)
  case Nil
  then show ?case by simp
next
  case (Cons m ms)
  show ?case
  proof (cases "out (channelStatus g ch (status m), data1 m, data2 m)")
    case True
    with Cons.IH show ?thesis
      by (auto simp: Let_def nth_Cons split: nat.splits)
  next
    case False
    then show ?thesis by (simp add: Let_def)
  qed
qed

lemma sendMessages_nth:
  assumes "i < length (snd (sendMessages h ms g))"
  shows "i < length ms
       \<and> sent_status (snd (sendMessages h ms g) ! i) = channelStatus g (channel h) (status (ms ! i))
       \<and> sent_data1 (snd (sendMessages h ms g) ! i) = data1 (ms ! i)
       \<and> sent_data2 (snd (sendMessages h ms g) ! i) = data2 (ms ! i)"
proof (cases "webSocket h = Some OPEN")
  case True
  with assms show ?thesis by (simp add: sendMessages_def)
next
  case False
  show ?thesis
  proof (cases "selectedOutput h")
    case None
    with False assms show ?thesis by (simp add: sendMessages_def)
  next
    case (Some out)
    with False have eq: "sendMessages h ms g = sendToOutput out (channel h) g ms"
      by (simp add: sendMessages_def)
    with assms sendToOutput_nth [of out "channel h" g ms] show ?thesis by auto
  qed
qed

lemma sendToOutput_accepting:
  "\<forall>m\<in>set ms. out (channelStatus g ch (status m), data1 m, data2 m) \<Longrightarrow>
     sendToOutput out ch g ms
       = (True, map (\<lambda>m. ViaWebMidi (channelStatus g ch (status m)) (data1 m) (data2 m)) ms)"
  by (induction ms) (simp_all add: Let_def)

lemma channelStatus_applied:
  assumes "0 \<le> ch" "ch \<le> 15"
  shows "channelStatus True ch st = (if 128 \<le> st \<and> st < 240 then 16 * (st div 16) + ch else st)"
  using assms by (simp add: channelStatus_voice channelStatus_other)

text \<open>
  C5. With the global channel applied and a channel from 0 to 15, \<open>sendMessages\<close>
  transmits every message it is given, in order: on the WebSocket when it is open,
  otherwise on the selected output when that accepts them; with no open socket and no
  output it transmits nothing and answers \<open>false\<close>. Each message goes out with its data
  bytes; a status byte from 0x80 to 0xEF keeps its high nibble and gets the global
  channel as its low nibble, and any other status byte, 0xF0 and above among them, is
  sent as it is. The same holds of every message that went out when the output stopped
  accepting part of the way.
\<close>

theorem sendMessages_channel:
  assumes "0 \<le> channel h" and "channel h \<le> 15"
  shows "(webSocket h = Some OPEN \<longrightarrow>
            sendMessages h ms True
              = (True,
                 map (\<lambda>m. ViaWebSocket
                             (if 128 \<le> status m \<and> status m < 240
                              then 16 * (status m div 16) + channel h else status m)
                             (data1 m) (data2 m)) ms))
       \<and> (\<forall>out. webSocket h \<noteq> Some OPEN \<and> selectedOutput h = Some out
                 \<and> (\<forall>m\<in>set ms.
                        out (if 128 \<le> status m \<and> status m < 240
                             then 16 * (status m div 16) + channel h else status m,
                             data1 m, data2 m))
            \<longrightarrow> sendMessages h ms True
                  = (True,
                     map (\<lambda>m. ViaWebMidi
                                 (if 128 \<le> status m \<and> status m < 240
                                  then 16 * (status m div 16) + channel h else status m)
                                 (data1 m) (data2 m)) ms))
       \<and> (webSocket h \<noteq> Some OPEN \<and> selectedOutput h = None
            \<longrightarrow> sendMessages h ms True = (False, []))
       \<and> (\<forall>i < length (snd (sendMessages h ms True)).
             i < length ms
             \<and> sent_data1 (snd (sendMessages h ms True) ! i) = data1 (ms ! i)
             \<and> sent_data2 (snd (sendMessages h ms True) ! i) = data2 (ms ! i)
             \<and> (128 \<le> status (ms ! i) \<and> status (ms ! i) < 240
                  \<longrightarrow> sent_status (snd (sendMessages h ms True) ! i) mod 16 = channel h
                      \<and> sent_status (snd (sendMessages h ms True) ! i) div 16
                          = status (ms ! i) div 16)
             \<and> (\<not> (128 \<le> status (ms ! i) \<and> status (ms ! i) < 240)
                  \<longrightarrow> sent_status (snd (sendMessages h ms True) ! i) = status (ms ! i)))"
proof (intro conjI allI impI)
  note cs = channelStatus_applied [OF assms]
  show "sendMessages h ms True
          = (True,
             map (\<lambda>m. ViaWebSocket
                         (if 128 \<le> status m \<and> status m < 240
                          then 16 * (status m div 16) + channel h else status m)
                         (data1 m) (data2 m)) ms)"
    if "webSocket h = Some OPEN"
    using that by (simp add: sendMessages_def cs)
  show "sendMessages h ms True
          = (True,
             map (\<lambda>m. ViaWebMidi
                         (if 128 \<le> status m \<and> status m < 240
                          then 16 * (status m div 16) + channel h else status m)
                         (data1 m) (data2 m)) ms)"
    if a: "webSocket h \<noteq> Some OPEN \<and> selectedOutput h = Some out
          \<and> (\<forall>m\<in>set ms.
                 out (if 128 \<le> status m \<and> status m < 240
                      then 16 * (status m div 16) + channel h else status m,
                      data1 m, data2 m))" for out
  proof -
    from a have acc: "\<forall>m\<in>set ms. out (channelStatus True (channel h) (status m), data1 m, data2 m)"
      by (simp add: cs)
    from a have "sendMessages h ms True = sendToOutput out (channel h) True ms"
      by (simp add: sendMessages_def)
    then show ?thesis
      using sendToOutput_accepting [OF acc] by (simp add: cs)
  qed
  show "sendMessages h ms True = (False, [])"
    if "webSocket h \<noteq> Some OPEN \<and> selectedOutput h = None"
    using that by (simp add: sendMessages_def)
  fix i assume i: "i < length (snd (sendMessages h ms True))"
  note nth = sendMessages_nth [OF i]
  show "i < length ms" using nth by simp
  show "sent_data1 (snd (sendMessages h ms True) ! i) = data1 (ms ! i)" using nth by simp
  show "sent_data2 (snd (sendMessages h ms True) ! i) = data2 (ms ! i)" using nth by simp
  show "sent_status (snd (sendMessages h ms True) ! i) mod 16 = channel h"
    if "128 \<le> status (ms ! i) \<and> status (ms ! i) < 240"
    using nth that assms by (simp add: cs)
  show "sent_status (snd (sendMessages h ms True) ! i) div 16 = status (ms ! i) div 16"
    if "128 \<le> status (ms ! i) \<and> status (ms ! i) < 240"
    using nth that assms by (simp add: cs)
  show "sent_status (snd (sendMessages h ms True) ! i) = status (ms ! i)"
    if "\<not> (128 \<le> status (ms ! i) \<and> status (ms ! i) < 240)"
    using nth that by (simp add: cs)
qed

theorem sendMessages_channel_witness:
  "sendMessages (setChannel (newMidiHandler\<lparr>webSocket := Some OPEN\<rparr>) 5)
       [noteOn60, sysExStart] True
     = (True, [ViaWebSocket 0x95 (numOfNat 60) (numOfNat 100),
               ViaWebSocket 0xF0 (numOfNat 60) (numOfNat 100)])
   \<and> sendMessages (setChannel (newMidiHandler\<lparr>selectedOutput := Some (\<lambda>bytes. True)\<rparr>) 5)
       [noteOn60, sysExStart] True
     = (True, [ViaWebMidi 0x95 (numOfNat 60) (numOfNat 100),
               ViaWebMidi 0xF0 (numOfNat 60) (numOfNat 100)])
   \<and> sendMessages (setChannel newMidiHandler 5) [noteOn60, sysExStart] True = (False, [])"
proof -
  let ?ws = "setChannel (newMidiHandler\<lparr>webSocket := Some OPEN\<rparr>) 5"
  let ?wm = "setChannel (newMidiHandler\<lparr>selectedOutput := Some (\<lambda>bytes. True)\<rparr>) 5"
  let ?no = "setChannel newMidiHandler 5"
  have "sendMessages ?ws [noteOn60, sysExStart] True
     = (True, [ViaWebSocket 0x95 (numOfNat 60) (numOfNat 100),
               ViaWebSocket 0xF0 (numOfNat 60) (numOfNat 100)])"
    using sendMessages_channel [of ?ws "[noteOn60, sysExStart]"]
    by (simp add: setChannel_def newMidiHandler_def noteOn60_def sysExStart_def)
  moreover have "sendMessages ?wm [noteOn60, sysExStart] True
     = (True, [ViaWebMidi 0x95 (numOfNat 60) (numOfNat 100),
               ViaWebMidi 0xF0 (numOfNat 60) (numOfNat 100)])"
    using sendMessages_channel [of ?wm "[noteOn60, sysExStart]"]
    by (simp add: setChannel_def newMidiHandler_def noteOn60_def sysExStart_def)
  moreover have "sendMessages ?no [noteOn60, sysExStart] True = (False, [])"
    using sendMessages_channel [of ?no "[noteOn60, sysExStart]"]
    by (simp add: setChannel_def newMidiHandler_def)
  ultimately show ?thesis by simp
qed

lemma channel_in_range: "channel h = 0 \<Longrightarrow> 0 \<le> channel (foldl handlerStep h evs) \<and> channel (foldl handlerStep h evs) \<le> 15"
proof (induction evs rule: rev_induct)
  case Nil
  then show ?case by simp
next
  case (snoc ev evs)
  then show ?case by (cases ev) (auto simp: setChannel_def)
qed

text \<open>
  C10. \<open>setChannel\<close> stores its integer argument clamped into 0 to 15: 0 for a negative
  one, 15 for one above 15. A handler starts with channel 0 and only \<open>setChannel\<close> writes
  the channel, so after any sequence of calls the stored channel is from 0 to 15; and
  every message with a channel voice status byte (0x80 to 0xEF) that is then sent with
  the global channel applied carries a channel voice status byte whose low nibble is
  the stored channel.
\<close>

theorem setChannel_invariant:
  "channel (setChannel h c) = (if c < 0 then 0 else if 15 < c then 15 else c)
   \<and> 0 \<le> channel (foldl handlerStep newMidiHandler evs)
   \<and> channel (foldl handlerStep newMidiHandler evs) \<le> 15
   \<and> (\<forall>ms i. i < length (snd (sendMessages (foldl handlerStep newMidiHandler evs) ms True))
              \<and> 128 \<le> status (ms ! i) \<and> status (ms ! i) < 240
        \<longrightarrow> sent_status (snd (sendMessages (foldl handlerStep newMidiHandler evs) ms True) ! i) mod 16
              = channel (foldl handlerStep newMidiHandler evs)
            \<and> 128 \<le> sent_status (snd (sendMessages (foldl handlerStep newMidiHandler evs) ms True) ! i)
            \<and> sent_status (snd (sendMessages (foldl handlerStep newMidiHandler evs) ms True) ! i) < 240)"
proof -
  let ?h = "foldl handlerStep newMidiHandler evs"
  have r: "0 \<le> channel ?h \<and> channel ?h \<le> 15"
    by (rule channel_in_range) (simp add: newMidiHandler_def)
  have "channel (setChannel h c) = (if c < 0 then 0 else if 15 < c then 15 else c)"
    by (simp add: setChannel_def)
  moreover have "sent_status (snd (sendMessages ?h ms True) ! i) mod 16 = channel ?h
            \<and> 128 \<le> sent_status (snd (sendMessages ?h ms True) ! i)
            \<and> sent_status (snd (sendMessages ?h ms True) ! i) < 240"
    if "i < length (snd (sendMessages ?h ms True))" "128 \<le> status (ms ! i)" "status (ms ! i) < 240"
    for ms i
  proof -
    have "sent_status (snd (sendMessages ?h ms True) ! i)
            = 16 * (status (ms ! i) div 16) + channel ?h"
      using sendMessages_nth [OF that(1)] that(2,3) r by (simp add: channelStatus_voice)
    moreover have "8 \<le> status (ms ! i) div 16" "status (ms ! i) div 16 \<le> 14"
      using that(2,3) by simp_all
    ultimately show ?thesis using r by simp
  qed
  ultimately show ?thesis using r by blast
qed

theorem setChannel_invariant_witness:
  "channel (setChannel newMidiHandler 99) = 15
   \<and> channel (setChannel newMidiHandler (- 3)) = 0
   \<and> length (snd (sendMessages
                    (foldl handlerStep newMidiHandler
                       [SocketChanged (Some OPEN), SetChannel 99, SetChannel (- 3), SetChannel 7])
                    [noteOn60] True)) = 1
   \<and> sent_status
         (snd (sendMessages
                 (foldl handlerStep newMidiHandler
                    [SocketChanged (Some OPEN), SetChannel 99, SetChannel (- 3), SetChannel 7])
                 [noteOn60] True) ! 0) mod 16 = 7"
proof -
  let ?evs = "[SocketChanged (Some OPEN), SetChannel 99, SetChannel (- 3), SetChannel 7]"
  let ?h = "foldl handlerStep newMidiHandler ?evs"
  have ch: "channel ?h = 7" by (simp add: setChannel_def)
  have ws: "webSocket ?h = Some OPEN" by (simp add: setChannel_def newMidiHandler_def)
  have len: "length (snd (sendMessages ?h [noteOn60] True)) = 1"
    using ws by (simp add: sendMessages_def)
  have st: "status ([noteOn60] ! 0) = 144" by (simp add: noteOn60_def)
  have "channel (setChannel newMidiHandler 99) = 15"
    using setChannel_invariant [of newMidiHandler 99 ?evs] by simp
  moreover have "channel (setChannel newMidiHandler (- 3)) = 0"
    using setChannel_invariant [of newMidiHandler "- 3" ?evs] by simp
  moreover have "sent_status (snd (sendMessages ?h [noteOn60] True) ! 0) mod 16 = channel ?h"
    using setChannel_invariant [of newMidiHandler 0 ?evs] len st by force
  ultimately show ?thesis using len ch by simp
qed

section \<open>Broadcasting a track change\<close>

lemma trackChange_only_from_broadcast:
  assumes "Send client (TrackChangeMsg n) \<in> set (snd (serverStep srv ev))"
  shows "client \<in> set (wsClients srv)
       \<and> ws_readyState (socket srv client) = OPEN
       \<and> ws_clientType (socket srv client) = BROWSER"
proof (cases ev)
  case (Connection ws)
  with assms show ?thesis by (simp add: onConnection_def)
next
  case (Message ws payload)
  with assms show ?thesis
    by (auto simp: onMessage_def sendMidi_def broadcastTrackName_def Let_def
          split: option.splits if_splits)
next
  case (Close ws)
  with assms show ?thesis by (simp add: onClose_def)
qed

text \<open>
  C7. In any step of the server, a \<open>trackChange\<close> message goes only to sockets that are
  at that moment in \<open>wsClients\<close>, open and of client type browser: a socket that has
  identified itself as the track monitor never gets one. When the message comes from a
  socket that has identified itself as the track monitor, the server leaves its state
  as it is and sends the track name to exactly the open browsers of \<open>wsClients\<close>, in
  order, and not to the sender.
\<close>

theorem trackChange_broadcast:
  "(\<forall>ev client n. Send client (TrackChangeMsg n) \<in> set (snd (serverStep srv ev))
       \<longrightarrow> client \<in> set (wsClients srv)
           \<and> ws_readyState (socket srv client) = OPEN
           \<and> ws_clientType (socket srv client) = BROWSER)
   \<and> (\<forall>ws props.
         ws_clientType (socket srv ws) = TRACK_MONITOR
         \<and> ownProp props ''type'' = JStr ''trackChange''
       \<longrightarrow> fst (serverStep srv (Message ws (Some props))) = srv
           \<and> snd (serverStep srv (Message ws (Some props)))
               = map (\<lambda>client. Send client (TrackChangeMsg (ownProp props ''trackName'')))
                   (filter (\<lambda>client. ws_readyState (socket srv client) = OPEN
                                    \<and> ws_clientType (socket srv client) = BROWSER)
                      (wsClients srv))
           \<and> Send ws (TrackChangeMsg (ownProp props ''trackName''))
               \<notin> set (snd (serverStep srv (Message ws (Some props)))))"
proof (intro conjI allI impI)
  fix ev client n
  assume "Send client (TrackChangeMsg n) \<in> set (snd (serverStep srv ev))"
  then have r: "client \<in> set (wsClients srv)
       \<and> ws_readyState (socket srv client) = OPEN
       \<and> ws_clientType (socket srv client) = BROWSER"
    by (rule trackChange_only_from_broadcast)
  from r show "client \<in> set (wsClients srv)" by simp
  from r show "ws_readyState (socket srv client) = OPEN" by simp
  from r show "ws_clientType (socket srv client) = BROWSER" by simp
next
  fix ws props
  assume a: "ws_clientType (socket srv ws) = TRACK_MONITOR
         \<and> ownProp props ''type'' = JStr ''trackChange''"
  let ?name = "ownProp props ''trackName''"
  have eq: "onMessage srv ws (Some props) = (srv, broadcastTrackName srv ?name)"
    using a by (simp add: onMessage_def Let_def)
  show "fst (serverStep srv (Message ws (Some props))) = srv"
    by (simp add: eq)
  show "snd (serverStep srv (Message ws (Some props)))
               = map (\<lambda>client. Send client (TrackChangeMsg ?name))
                   (filter (\<lambda>client. ws_readyState (socket srv client) = OPEN
                                    \<and> ws_clientType (socket srv client) = BROWSER)
                      (wsClients srv))"
    by (simp add: eq broadcastTrackName_def)
  show "Send ws (TrackChangeMsg ?name) \<notin> set (snd (serverStep srv (Message ws (Some props))))"
    using a by (auto simp: eq broadcastTrackName_def)
qed

theorem trackChange_broadcast_witness:
  "serverStep exampleServer (Message 0 (Some (trackChangeFrom ''Violin 1'')))
     = (exampleServer, [Send 1 (TrackChangeMsg (JStr ''Violin 1''))])
   \<and> ws_clientType (socket exampleServer 0) = TRACK_MONITOR
   \<and> ws_clientType (socket exampleServer 1) = BROWSER"
proof -
  have t: "ws_clientType (socket exampleServer 0) = TRACK_MONITOR"
    by (simp add: exampleServer_def)
  have p: "ownProp (trackChangeFrom ''Violin 1'') ''type'' = JStr ''trackChange''"
    by (simp add: trackChangeFrom_def ownProp_def)
  have n: "ownProp (trackChangeFrom ''Violin 1'') ''trackName'' = JStr ''Violin 1''"
    by (simp add: trackChangeFrom_def ownProp_def)
  note step = conjunct2 [OF trackChange_broadcast [of exampleServer], rule_format,
      of 0 "trackChangeFrom ''Violin 1''", OF conjI [OF t p]]
  have "fst (serverStep exampleServer (Message 0 (Some (trackChangeFrom ''Violin 1'')))) = exampleServer"
    using step by simp
  moreover have "snd (serverStep exampleServer (Message 0 (Some (trackChangeFrom ''Violin 1''))))
           = map (\<lambda>client. Send client (TrackChangeMsg (JStr ''Violin 1'')))
               (filter (\<lambda>client. ws_readyState (socket exampleServer client) = OPEN
                                \<and> ws_clientType (socket exampleServer client) = BROWSER)
                  (wsClients exampleServer))"
    using step by (simp only: n)
  moreover have "filter (\<lambda>client. ws_readyState (socket exampleServer client) = OPEN
                                \<and> ws_clientType (socket exampleServer client) = BROWSER)
                  (wsClients exampleServer) = [1]"
    by (simp add: exampleServer_def)
  ultimately have "serverStep exampleServer (Message 0 (Some (trackChangeFrom ''Violin 1'')))
     = (exampleServer, [Send 1 (TrackChangeMsg (JStr ''Violin 1''))])"
    by (simp add: prod_eq_iff)
  moreover have "ws_clientType (socket exampleServer 1) = BROWSER"
    by (simp add: exampleServer_def)
  ultimately show ?thesis using t by simp
qed

end
